theory Spec2Isabelle
  imports Complex_Main "HOL-Library.Code_Target_Numeral"
begin

section \<open>JavaScript numbers and their printing\<close>

text \<open>
  The script computes with JavaScript numbers. File sizes and counters are non-negative
  integers (exact in a double below \<open>2^53\<close>) and are modelled as \<open>nat\<close>. The
  percentages are quotients, so they need the values a double has beyond the finite ones:
  a division by zero raises nothing in JavaScript, it yields \<open>NaN\<close> or an infinity.
  A finite value is the real number that the double holds, and every operation rounds
  its exact result to the nearest double, as IEEE 754 arithmetic does.
\<close>

datatype jsnum = Num real | NaN | PosInfinity | NegInfinity

text \<open>
  Rounding to the nearest double, ties to the even significand. A double has 53
  significant bits: for \<open>2^e \<le> |x| < 2^(e+1)\<close> the doubles around \<open>x\<close> are the
  multiples of \<open>2^(e-52)\<close>. \<open>bitLength\<close> counts the bits of a positive integer,
  from which \<open>binaryExponent\<close> finds \<open>e\<close>. The exponent is not bounded: overflow
  to an infinity and subnormal values are not modelled, and are out of reach of
  quotients of file sizes.
\<close>

fun bitLength :: "int \<Rightarrow> nat" where
  "bitLength n = (if n \<le> 0 then 0 else Suc (bitLength (n div 2)))"

declare bitLength.simps [simp del]

definition binaryExponent :: "real \<Rightarrow> int" where
  "binaryExponent x =
     (if 1 \<le> x then int (bitLength \<lfloor>x\<rfloor>) - 1
      else - int (bitLength (\<lceil>1 / x\<rceil> - 1)))"

definition roundHalfEven :: "real \<Rightarrow> int" where
  "roundHalfEven m =
     (let f = \<lfloor>m\<rfloor>; r = m - of_int f
      in if r < 1 / 2 then f else if 1 / 2 < r then f + 1 else if even f then f else f + 1)"

definition roundDouble :: "real \<Rightarrow> real" where
  "roundDouble x =
     (if x = 0 then 0
      else
        (let ulp = 2 powi (binaryExponent \<bar>x\<bar> - 52)
         in sgn x * of_int (roundHalfEven (\<bar>x\<bar> / ulp)) * ulp))"

fun js_sub :: "jsnum \<Rightarrow> jsnum \<Rightarrow> jsnum" where
  "js_sub (Num a) (Num b) = Num (roundDouble (a - b))"
| "js_sub NaN _ = NaN"
| "js_sub _ NaN = NaN"
| "js_sub PosInfinity PosInfinity = NaN"
| "js_sub NegInfinity NegInfinity = NaN"
| "js_sub PosInfinity _ = PosInfinity"
| "js_sub NegInfinity _ = NegInfinity"
| "js_sub (Num a) PosInfinity = NegInfinity"
| "js_sub (Num a) NegInfinity = PosInfinity"

fun js_div :: "jsnum \<Rightarrow> jsnum \<Rightarrow> jsnum" where
  "js_div (Num a) (Num b) =
     (if b = 0 then (if a = 0 then NaN else if 0 < a then PosInfinity else NegInfinity)
      else Num (roundDouble (a / b)))"
| "js_div NaN _ = NaN"
| "js_div _ NaN = NaN"
| "js_div (Num a) _ = Num 0"
| "js_div PosInfinity (Num b) = (if 0 \<le> b then PosInfinity else NegInfinity)"
| "js_div NegInfinity (Num b) = (if 0 \<le> b then NegInfinity else PosInfinity)"
| "js_div _ _ = NaN"

fun js_mul :: "jsnum \<Rightarrow> jsnum \<Rightarrow> jsnum" where
  "js_mul (Num a) (Num b) = Num (roundDouble (a * b))"
| "js_mul NaN _ = NaN"
| "js_mul _ NaN = NaN"
| "js_mul PosInfinity (Num b) = (if b = 0 then NaN else if 0 < b then PosInfinity else NegInfinity)"
| "js_mul NegInfinity (Num b) = (if b = 0 then NaN else if 0 < b then NegInfinity else PosInfinity)"
| "js_mul (Num a) PosInfinity = (if a = 0 then NaN else if 0 < a then PosInfinity else NegInfinity)"
| "js_mul (Num a) NegInfinity = (if a = 0 then NaN else if 0 < a then NegInfinity else PosInfinity)"
| "js_mul PosInfinity PosInfinity = PosInfinity"
| "js_mul NegInfinity NegInfinity = PosInfinity"
| "js_mul PosInfinity NegInfinity = NegInfinity"
| "js_mul NegInfinity PosInfinity = NegInfinity"

definition digitChar :: "nat \<Rightarrow> char" where
  "digitChar d = ''0123456789'' ! d"

fun showNat :: "nat \<Rightarrow> string" where
  "showNat n = (if n < 10 then [digitChar n] else showNat (n div 10) @ [digitChar (n mod 10)])"

declare showNat.simps [simp del]

text \<open>
  \<open>Number.prototype.toFixed(2)\<close>: \<open>NaN\<close> and the infinities print by name; a finite
  \<open>x\<close> prints the integer \<open>n\<close> nearest to \<open>|x| * 100\<close>, taken on the exact value
  of the double (the larger one at a tie), with
  a point before its last two digits, and a minus sign when \<open>x < 0\<close>. (Above \<open>10^21\<close>
  JavaScript switches to exponent notation; sizes in bytes never reach it.)
\<close>

definition toFixed2 :: "jsnum \<Rightarrow> string" where
  "toFixed2 x =
     (case x of
        NaN \<Rightarrow> ''NaN''
      | PosInfinity \<Rightarrow> ''Infinity''
      | NegInfinity \<Rightarrow> ''-Infinity''
      | Num q \<Rightarrow>
          (let n = nat \<lfloor>\<bar>q\<bar> * 100 + 1 / 2\<rfloor>;
               m = showNat n;
               m' = (if length m \<le> 2 then replicate (3 - length m) (CHR ''0'') @ m else m);
               k = length m' - 2
           in (if q < 0 then ''-'' else '''') @ take k m' @ ''.'' @ drop k m'))"

section \<open>The POSIX \<open>path\<close> module of Node.js\<close>

text \<open>
  The walker builds every path with \<open>path.join\<close>, \<open>path.relative\<close> and
  \<open>path.extname\<close>. These are library functions; they are modelled on strings, with a
  path seen as its list of \<open>/\<close>-separated segments, following the library's POSIX
  implementation.
\<close>

fun splitSep :: "string \<Rightarrow> string list" where
  "splitSep [] = [[]]"
| "splitSep (c # cs) =
     (if c = CHR ''/'' then [] # splitSep cs
      else (case splitSep cs of [] \<Rightarrow> [[c]] | s # ss \<Rightarrow> (c # s) # ss))"

fun joinSep :: "string list \<Rightarrow> string" where
  "joinSep [] = []"
| "joinSep (s # ss) = s @ concat (map ((#) (CHR ''/'')) ss)"

text \<open>
  \<open>normalizeString\<close>: empty segments and \<open>.\<close> are dropped; \<open>..\<close> removes the segment
  before it, unless there is none or it is itself \<open>..\<close>, where it is kept only when the
  path may climb above its root.
\<close>

fun normalizeSegs :: "bool \<Rightarrow> string list \<Rightarrow> string list \<Rightarrow> string list" where
  "normalizeSegs allowAboveRoot res [] = res"
| "normalizeSegs allowAboveRoot res (s # ss) =
     (if s = [] \<or> s = ''.'' then normalizeSegs allowAboveRoot res ss
      else if s = ''..'' then
        (if res \<noteq> [] \<and> last res \<noteq> ''..'' then normalizeSegs allowAboveRoot (butlast res) ss
         else if allowAboveRoot then normalizeSegs allowAboveRoot (res @ [''..'']) ss
         else normalizeSegs allowAboveRoot res ss)
      else normalizeSegs allowAboveRoot (res @ [s]) ss)"

definition normalizeString :: "string \<Rightarrow> bool \<Rightarrow> string" where
  "normalizeString p allowAboveRoot = joinSep (normalizeSegs allowAboveRoot [] (splitSep p))"

definition path_normalize :: "string \<Rightarrow> string" where
  "path_normalize p =
     (if p = [] then ''.''
      else
        (let isAbsolute = (hd p = CHR ''/'');
             trailingSeparator = (last p = CHR ''/'');
             q = normalizeString p (\<not> isAbsolute)
         in if q = [] then (if isAbsolute then ''/'' else if trailingSeparator then ''./'' else ''.'')
            else
              (let q' = (if trailingSeparator then q @ ''/'' else q)
               in if isAbsolute then CHR ''/'' # q' else q')))"

definition path_join :: "string \<Rightarrow> string \<Rightarrow> string" where
  "path_join a b =
     (let joined = (if a = [] then b else if b = [] then a else a @ ''/'' @ b)
      in if joined = [] then ''.'' else path_normalize joined)"

text \<open>
  \<open>path.resolve\<close> of one path against the working directory of the process, as the
  list of segments of the absolute path it returns.
\<close>

definition resolveSegs :: "string \<Rightarrow> string \<Rightarrow> string list" where
  "resolveSegs cwd p =
     (if p \<noteq> [] \<and> hd p = CHR ''/'' then normalizeSegs False [] (splitSep p)
      else if p = [] then normalizeSegs False [] (splitSep cwd)
      else normalizeSegs False [] (splitSep (cwd @ ''/'' @ p)))"

fun stripCommon :: "string list \<Rightarrow> string list \<Rightarrow> string list \<times> string list" where
  "stripCommon (x # xs) (y # ys) = (if x = y then stripCommon xs ys else (x # xs, y # ys))"
| "stripCommon xs ys = (xs, ys)"

definition path_relative :: "string \<Rightarrow> string \<Rightarrow> string \<Rightarrow> string" where
  "path_relative cwd from to =
     (if from = to then []
      else
        (let (f, t) = stripCommon (resolveSegs cwd from) (resolveSegs cwd to)
         in joinSep (replicate (length f) ''..'' @ t)))"

definition stripTrailingSep :: "string \<Rightarrow> string" where
  "stripTrailingSep p = rev (dropWhile (\<lambda>c. c = CHR ''/'') (rev p))"

definition path_basename :: "string \<Rightarrow> string" where
  "path_basename p = rev (takeWhile (\<lambda>c. c \<noteq> CHR ''/'') (rev (stripTrailingSep p)))"

definition path_extname :: "string \<Rightarrow> string" where
  "path_extname p =
     (let b = path_basename p
      in if b = ''..'' \<or> CHR ''.'' \<notin> set b then []
         else
           (let ext = CHR ''.'' # rev (takeWhile (\<lambda>c. c \<noteq> CHR ''.'') (rev b))
            in if length ext = length b then [] else ext))"

definition path_dirname :: "string \<Rightarrow> string" where
  "path_dirname p =
     (case p of
        [] \<Rightarrow> ''.''
      | c # t \<Rightarrow>
          (let hasRoot = (c = CHR ''/'');
               t' = stripTrailingSep t
           in if CHR ''/'' \<notin> set t' then (if hasRoot then ''/'' else ''.'')
              else
                (let j = length t' - 1 - length (takeWhile (\<lambda>c. c \<noteq> CHR ''/'') (rev t'))
                 in if hasRoot \<and> j = 0 then ''//'' else c # take j t')))"

text \<open>
  \<open>String.prototype.toLowerCase\<close> on the bytes of a string: the letters \<open>A\<close> to
  \<open>Z\<close> map to \<open>a\<close> to \<open>z\<close>, every other byte is kept.
\<close>

definition lowerChar :: "char \<Rightarrow> char" where
  "lowerChar c =
     (case map_of (zip ''ABCDEFGHIJKLMNOPQRSTUVWXYZ'' ''abcdefghijklmnopqrstuvwxyz'') c of
        None \<Rightarrow> c
      | Some d \<Rightarrow> d)"

definition toLowerCase :: "string \<Rightarrow> string" where
  "toLowerCase s = map lowerChar s"

section \<open>The converter script\<close>

subsection \<open>Constants\<close>

definition TO_BE_CONVERTED_DIR :: string where
  "TO_BE_CONVERTED_DIR = ''to-be-converted''"

definition CONVERTED_DIR :: string where
  "CONVERTED_DIR = ''converted''"

definition SUPPORTED_FORMATS :: "string set" where
  "SUPPORTED_FORMATS =
     {''.gif'', ''.png'', ''.jpg'', ''.jpeg'', ''.tiff'', ''.bmp'', ''.webp'', ''.avif''}"

subsection \<open>The world outside the script\<close>

text \<open>
  The file system, the image library and the transcoder are outside the script. What they
  answer for one file is data of the model: every call that can reject carries the
  message of its error (\<open>Inl\<close>, or \<open>Some\<close> for a call with no result).
\<close>

record file_io =
  statInput :: "string + nat"
  accessOutDir :: bool
  mkdirOutDir :: "string option"
  metadataPages :: "string + nat option"
  gif2webpError :: "string option"
  sharpError :: "string option"
  statOutput :: "string + nat"

text \<open>
  A directory entry as \<open>readdir\<close> with \<open>withFileTypes\<close> reports it: a regular file, a
  directory (with what listing it will answer), or anything else (a symbolic link, a
  socket), for which \<open>isDirectory()\<close> and \<open>isFile()\<close> are both false.
\<close>

datatype node =
    File string file_io
  | Dir string readdir_result
  | Other string
and readdir_result =
    Entries "node list"
  | ReaddirFails string

record webp_options =
  quality :: nat
  lossless :: "bool option"
  nearLossless :: "bool option"
  effort :: nat
  smartSubsample :: "bool option"

text \<open>
  The calls the script makes to the outside, in the order it makes them. Every
  \<open>console.log\<close> of the script has one argument, the line it prints; a
  \<open>console.error\<close> has two, kept as the list of the arguments it is called with
  (Node formats them: the first is a format string, the second follows it after a space
  unless a directive of the first consumes it).
\<close>

datatype event =
    FsReaddir string
  | FsStat string
  | FsAccess string
  | FsMkdir string
  | SharpMetadata string
  | ExecGif2webp "string list"
  | SharpToFile string webp_options string
  | ConsoleLog string
  | ConsoleError "string list"

text \<open>
  An awaited call: the events it made, and the error it threw (\<open>Inl\<close>) or its value.
  \<open>await\<close> runs the rest of the function after a call that returned and skips it after
  one that threw.
\<close>

type_synonym 'a promise = "event list \<times> (string + 'a)"

definition await :: "'a promise \<Rightarrow> ('a \<Rightarrow> 'b promise) \<Rightarrow> 'b promise" where
  "await m f =
     (case m of
        (es, Inl err) \<Rightarrow> (es, Inl err)
      | (es, Inr v) \<Rightarrow> (case f v of (es', r) \<Rightarrow> (es @ es', r)))"

definition fsStat :: "string + nat \<Rightarrow> string \<Rightarrow> nat promise" where
  "fsStat answer p = ([FsStat p], answer)"

subsection \<open>isAnimatedGif, ensureDir and the two converters\<close>

definition isAnimatedGif :: "file_io \<Rightarrow> string \<Rightarrow> bool promise" where
  "isAnimatedGif io filePath =
     ([SharpMetadata filePath],
      Inr (case metadataPages io of
             Inl err \<Rightarrow> True
           | Inr pages \<Rightarrow> (case pages of None \<Rightarrow> False | Some n \<Rightarrow> n \<noteq> 0 \<and> 1 < n)))"

definition ensureDir :: "bool \<Rightarrow> string option \<Rightarrow> string \<Rightarrow> unit promise" where
  "ensureDir accessOk mkdirError dirPath =
     (if accessOk then ([FsAccess dirPath], Inr ())
      else ([FsAccess dirPath, FsMkdir dirPath],
            (case mkdirError of None \<Rightarrow> Inr () | Some err \<Rightarrow> Inl err)))"

definition convertAnimatedGif :: "file_io \<Rightarrow> string \<Rightarrow> string \<Rightarrow> unit promise" where
  "convertAnimatedGif io inputPath outputPath =
     ([ExecGif2webp [inputPath, ''-q'', ''75'', ''-m'', ''6'', ''-min_size'', ''-mt'', ''-o'', outputPath]],
      (case gif2webpError io of None \<Rightarrow> Inr () | Some err \<Rightarrow> Inl err))"

definition sharpOptions :: "string \<Rightarrow> webp_options" where
  "sharpOptions ext =
     (if ext = ''.png'' then
        \<lparr>quality = 75, lossless = Some False, nearLossless = Some True, effort = 6,
         smartSubsample = Some True\<rparr>
      else if ext = ''.jpg'' \<or> ext = ''.jpeg'' then
        \<lparr>quality = 80, lossless = None, nearLossless = None, effort = 6,
         smartSubsample = Some True\<rparr>
      else
        \<lparr>quality = 75, lossless = None, nearLossless = None, effort = 6,
         smartSubsample = None\<rparr>)"

definition convertWithSharp :: "file_io \<Rightarrow> string \<Rightarrow> string \<Rightarrow> unit promise" where
  "convertWithSharp io inputPath outputPath =
     (let ext = toLowerCase (path_extname inputPath)
      in ([SharpToFile inputPath (sharpOptions ext) outputPath],
          (case sharpError io of None \<Rightarrow> Inr () | Some err \<Rightarrow> Inl err)))"

subsection \<open>convertFile\<close>

record conversion =
  success :: bool
  originalSize :: nat
  newSize :: nat

definition percentReduction :: "nat \<Rightarrow> nat \<Rightarrow> jsnum" where
  "percentReduction original new =
     js_mul (js_div (js_sub (Num (of_nat original)) (Num (of_nat new))) (Num (of_nat original)))
       (Num 100)"

definition megabytes :: "nat \<Rightarrow> string" where
  "megabytes bytes = toFixed2 (js_div (js_div (Num (of_nat bytes)) (Num 1024)) (Num 1024))"

definition newline :: string where
  "newline = [CHR 0x0A]"

definition checkMark :: string where
  "checkMark = [CHR 0xE2, CHR 0x9C, CHR 0x93]"

definition ballotX :: string where
  "ballotX = [CHR 0xE2, CHR 0x9C, CHR 0x97]"

text \<open>
  The body of the \<open>try\<close> block of \<open>convertFile\<close>: \<open>Inr None\<close> is its \<open>return null\<close>
  for an unsupported extension, \<open>Inl\<close> an error thrown by one of the awaited calls.
\<close>

definition convertFile_try :: "file_io \<Rightarrow> string \<Rightarrow> string \<Rightarrow> conversion option promise" where
  "convertFile_try io inputPath outputPath =
     (let ext = toLowerCase (path_extname inputPath)
      in if ext \<notin> SUPPORTED_FORMATS then
           ([ConsoleLog (''Skipping unsupported file: '' @ path_basename inputPath)], Inr None)
         else
           await (fsStat (statInput io) inputPath) (\<lambda>originalSize.
           await (ensureDir (accessOutDir io) (mkdirOutDir io) (path_dirname outputPath)) (\<lambda>_.
           await (if ext = ''.gif'' then isAnimatedGif io inputPath else ([], Inr False)) (\<lambda>animated.
           await (if animated then convertAnimatedGif io inputPath outputPath
                  else convertWithSharp io inputPath outputPath) (\<lambda>_.
           await (fsStat (statOutput io) outputPath) (\<lambda>newSize.
             (let savings = toFixed2 (percentReduction originalSize newSize)
              in ([ConsoleLog (checkMark @ '' Converted: '' @ path_basename inputPath),
                   ConsoleLog (''  Original: '' @ megabytes originalSize @ '' MB''),
                   ConsoleLog (''  New size: '' @ megabytes newSize @ '' MB''),
                   ConsoleLog (''  Reduced by: '' @ savings @ ''%'' @ newline)],
                  Inr (Some \<lparr>success = True, originalSize = originalSize,
                              newSize = newSize\<rparr>)))))))))"

text \<open>\<open>convertFile\<close> with its \<open>catch\<close>: a thrown error is logged and \<open>null\<close> returned.\<close>

definition convertFile :: "file_io \<Rightarrow> string \<Rightarrow> string \<Rightarrow> event list \<times> conversion option" where
  "convertFile io inputPath outputPath =
     (case convertFile_try io inputPath outputPath of
        (es, Inr result) \<Rightarrow> (es, result)
      | (es, Inl message) \<Rightarrow>
          (es @ [ConsoleError [ballotX @ '' Error converting '' @ path_basename inputPath @ '':'',
                               message]],
           None))"

subsection \<open>processDirectory\<close>

text \<open>
  The \<open>formats\<close> object is kept as the list of its properties in insertion order, as
  \<open>Object.entries\<close> enumerates them.
\<close>

record stats =
  totalFiles :: nat
  successfulConversions :: nat
  failedConversions :: nat
  totalOriginalSize :: nat
  totalNewSize :: nat
  formats :: "(string \<times> nat) list"

definition emptyStats :: stats where
  "emptyStats =
     \<lparr>totalFiles = 0, successfulConversions = 0, failedConversions = 0,
      totalOriginalSize = 0, totalNewSize = 0, formats = []\<rparr>"

text \<open>\<open>obj[key] || 0\<close> and \<open>obj[key] = v\<close>.\<close>

definition getCount :: "(string \<times> nat) list \<Rightarrow> string \<Rightarrow> nat" where
  "getCount obj key = (case map_of obj key of None \<Rightarrow> 0 | Some c \<Rightarrow> c)"

fun setProp :: "(string \<times> nat) list \<Rightarrow> string \<Rightarrow> nat \<Rightarrow> (string \<times> nat) list" where
  "setProp [] key v = [(key, v)]"
| "setProp ((k, c) # ps) key v = (if k = key then (key, v) # ps else (k, c) # setProp ps key v)"

text \<open>The merge of a subdirectory's statistics into the caller's (lines 172 to 180).\<close>

definition mergeFormats :: "(string \<times> nat) list \<Rightarrow> (string \<times> nat) list \<Rightarrow> (string \<times> nat) list" where
  "mergeFormats obj sub =
     fold (\<lambda>(format, count) acc. setProp acc format (getCount acc format + count)) sub obj"

definition mergeStats :: "stats \<Rightarrow> stats \<Rightarrow> stats" where
  "mergeStats st subStats =
     st\<lparr>totalFiles := totalFiles st + totalFiles subStats,
        successfulConversions := successfulConversions st + successfulConversions subStats,
        failedConversions := failedConversions st + failedConversions subStats,
        totalOriginalSize := totalOriginalSize st + totalOriginalSize subStats,
        totalNewSize := totalNewSize st + totalNewSize subStats,
        formats := mergeFormats (formats st) (formats subStats)\<rparr>"

text \<open>
  \<open>outputPath.replace(/\.[^/.]+$/, ".webp")\<close>: the leftmost place from which the rest of
  the string is a dot followed by one or more characters other than \<open>/\<close> and \<open>.\<close>
  is replaced; a string with no such place is returned as it is.
\<close>

definition matchesExtension :: "string \<Rightarrow> bool" where
  "matchesExtension s =
     (case s of
        [] \<Rightarrow> False
      | c # r \<Rightarrow> c = CHR ''.'' \<and> r \<noteq> [] \<and> list_all (\<lambda>x. x \<noteq> CHR ''/'' \<and> x \<noteq> CHR ''.'') r)"

fun replaceExtension :: "string \<Rightarrow> string" where
  "replaceExtension [] = []"
| "replaceExtension (c # cs) =
     (if matchesExtension (c # cs) then ''.webp'' else c # replaceExtension cs)"

definition recordConversion :: "stats \<Rightarrow> conversion option \<Rightarrow> stats" where
  "recordConversion st result =
     (case result of
        Some r \<Rightarrow>
          st\<lparr>successfulConversions := successfulConversions st + 1,
             totalOriginalSize := totalOriginalSize st + originalSize r,
             totalNewSize := totalNewSize st + newSize r\<rparr>
      | None \<Rightarrow> st\<lparr>failedConversions := failedConversions st + 1\<rparr>)"

text \<open>
  \<open>processDirectory\<close> is the \<open>readdir\<close> and its \<open>catch\<close>, \<open>processEntries\<close> the
  \<open>for\<close> loop and \<open>processEntry\<close> one turn of it. \<open>cwd\<close> is the working directory of
  the process, which \<open>path.relative\<close> reads.
\<close>

fun processDirectory :: "string \<Rightarrow> string \<Rightarrow> string \<Rightarrow> readdir_result \<Rightarrow> event list \<times> stats"
and processEntries :: "string \<Rightarrow> string \<Rightarrow> string \<Rightarrow> node list \<Rightarrow> stats \<Rightarrow> event list \<times> stats"
and processEntry :: "string \<Rightarrow> string \<Rightarrow> string \<Rightarrow> node \<Rightarrow> stats \<Rightarrow> event list \<times> stats"
where
  "processDirectory cwd inputDir outputDir (ReaddirFails message) =
     ([FsReaddir inputDir,
       ConsoleError [''Error processing directory '' @ inputDir @ '':'', message]],
      emptyStats)"
| "processDirectory cwd inputDir outputDir (Entries entries) =
     (case processEntries cwd inputDir outputDir entries emptyStats of
        (es, st) \<Rightarrow> (FsReaddir inputDir # es, st))"
| "processEntries cwd inputDir outputDir [] st = ([], st)"
| "processEntries cwd inputDir outputDir (entry # entries) st =
     (case processEntry cwd inputDir outputDir entry st of
        (es, st') \<Rightarrow>
          (case processEntries cwd inputDir outputDir entries st' of
             (es', st'') \<Rightarrow> (es @ es', st'')))"
| "processEntry cwd inputDir outputDir (Dir name listing) st =
     (let inputPath = path_join inputDir name
      in case processDirectory cwd inputPath outputDir listing of
           (es, subStats) \<Rightarrow> (es, mergeStats st subStats))"
| "processEntry cwd inputDir outputDir (File name io) st =
     (let inputPath = path_join inputDir name;
          relativePath = path_relative cwd TO_BE_CONVERTED_DIR inputPath;
          outputPath = path_join outputDir relativePath;
          ext = toLowerCase (path_extname name)
      in if ext \<in> SUPPORTED_FORMATS then
           (let st1 = st\<lparr>totalFiles := totalFiles st + 1,
                         formats := setProp (formats st) ext (getCount (formats st) ext + 1)\<rparr>;
                outputWebP = replaceExtension outputPath
            in case convertFile io inputPath outputWebP of
                 (es, result) \<Rightarrow> (es, recordConversion st1 result))
         else ([], st))"
| "processEntry cwd inputDir outputDir (Other name) st = ([], st)"

subsection \<open>main\<close>

record world =
  processCwd :: string
  accessPending :: bool
  mkdirPending :: "string option"
  accessConverted :: bool
  mkdirConverted :: "string option"
  pendingListing :: readdir_result

definition summary :: "stats \<Rightarrow> event list" where
  "summary st =
     [ConsoleLog (newline @ ''Conversion Summary:''),
      ConsoleLog (''Total files processed: '' @ showNat (totalFiles st)),
      ConsoleLog (''Successful conversions: '' @ showNat (successfulConversions st)),
      ConsoleLog (''Failed conversions: '' @ showNat (failedConversions st)),
      ConsoleLog (newline @ ''Total original size: '' @ megabytes (totalOriginalSize st) @ '' MB''),
      ConsoleLog (''Total new size: '' @ megabytes (totalNewSize st) @ '' MB''),
      ConsoleLog (''Overall reduction: ''
                  @ toFixed2 (percentReduction (totalOriginalSize st) (totalNewSize st)) @ ''%''),
      ConsoleLog (newline @ ''Files processed by format:'')]
     @ map (\<lambda>(format, count). ConsoleLog (format @ '': '' @ showNat count @ '' files''))
         (formats st)
     @ [ConsoleLog (newline @ ''Converted files are in the '' @ [CHR 0x22] @ ''converted''
                    @ [CHR 0x22] @ '' directory'')]"

definition main_try :: "world \<Rightarrow> unit promise" where
  "main_try w =
     await (ensureDir (accessPending w) (mkdirPending w) TO_BE_CONVERTED_DIR) (\<lambda>_.
     await (ensureDir (accessConverted w) (mkdirConverted w) CONVERTED_DIR) (\<lambda>_.
       (case processDirectory (processCwd w) TO_BE_CONVERTED_DIR CONVERTED_DIR (pendingListing w) of
          (es, st) \<Rightarrow>
            (ConsoleLog (''Starting conversion process...'' @ newline) # es @ summary st,
             Inr ()))))"

definition main :: "world \<Rightarrow> event list" where
  "main w =
     (case main_try w of
        (es, Inr _) \<Rightarrow> es
      | (es, Inl message) \<Rightarrow> es @ [ConsoleError [''Error:'', message]])"

section \<open>Notions the properties are stated with\<close>

text \<open>
  A name as a directory listing can report it: not empty, without \<open>/\<close>, and neither
  \<open>.\<close> nor \<open>..\<close>.
\<close>

definition validName :: "string \<Rightarrow> bool" where
  "validName n \<longleftrightarrow> n \<noteq> [] \<and> CHR ''/'' \<notin> set n \<and> n \<noteq> ''.'' \<and> n \<noteq> ''..''"

definition supportedName :: "string \<Rightarrow> bool" where
  "supportedName n \<longleftrightarrow> toLowerCase (path_extname n) \<in> SUPPORTED_FORMATS"

text \<open>A file name without its extension.\<close>

definition withoutExtension :: "string \<Rightarrow> string" where
  "withoutExtension n = take (length n - length (path_extname n)) n"

text \<open>
  The mirrored path of the specification: the segments of the output root, then the
  directories from the pending root down to the file, then the file's name with its
  extension replaced by \<open>.webp\<close>.
\<close>

definition mirroredPath :: "string list \<Rightarrow> string list \<Rightarrow> string \<Rightarrow> string" where
  "mirroredPath outputRoot dirs name = joinSep (outputRoot @ dirs @ [withoutExtension name @ ''.webp''])"

text \<open>
  The conversions of a walk: for every file with a supported extension that the walk
  reaches, in the order of the walk, its lowercased extension and what \<open>convertFile\<close>
  returned for it.
\<close>

fun attempts :: "string \<Rightarrow> string \<Rightarrow> string \<Rightarrow> readdir_result \<Rightarrow> (string \<times> conversion option) list"
and attemptsIn :: "string \<Rightarrow> string \<Rightarrow> string \<Rightarrow> node list \<Rightarrow> (string \<times> conversion option) list"
and attemptsAt :: "string \<Rightarrow> string \<Rightarrow> string \<Rightarrow> node \<Rightarrow> (string \<times> conversion option) list"
where
  "attempts cwd inputDir outputDir (ReaddirFails message) = []"
| "attempts cwd inputDir outputDir (Entries entries) = attemptsIn cwd inputDir outputDir entries"
| "attemptsIn cwd inputDir outputDir [] = []"
| "attemptsIn cwd inputDir outputDir (entry # entries) =
     attemptsAt cwd inputDir outputDir entry @ attemptsIn cwd inputDir outputDir entries"
| "attemptsAt cwd inputDir outputDir (Dir name listing) =
     attempts cwd (path_join inputDir name) outputDir listing"
| "attemptsAt cwd inputDir outputDir (File name io) =
     (let inputPath = path_join inputDir name;
          outputPath = path_join outputDir (path_relative cwd TO_BE_CONVERTED_DIR inputPath);
          ext = toLowerCase (path_extname name)
      in if ext \<in> SUPPORTED_FORMATS
         then [(ext, snd (convertFile io inputPath (replaceExtension outputPath)))]
         else [])"
| "attemptsAt cwd inputDir outputDir (Other name) = []"

text \<open>
  The records returned by a walk: the one of the call itself, then those of the recursive
  calls it makes for the subdirectories, at every depth.
\<close>

fun returned :: "string \<Rightarrow> string \<Rightarrow> string \<Rightarrow> readdir_result \<Rightarrow> stats list"
and returnedIn :: "string \<Rightarrow> string \<Rightarrow> string \<Rightarrow> node list \<Rightarrow> stats list"
where
  "returned cwd inputDir outputDir (ReaddirFails message) =
     [snd (processDirectory cwd inputDir outputDir (ReaddirFails message))]"
| "returned cwd inputDir outputDir (Entries entries) =
     snd (processDirectory cwd inputDir outputDir (Entries entries))
     # returnedIn cwd inputDir outputDir entries"
| "returnedIn cwd inputDir outputDir [] = []"
| "returnedIn cwd inputDir outputDir (Dir name listing # entries) =
     returned cwd (path_join inputDir name) outputDir listing
     @ returnedIn cwd inputDir outputDir entries"
| "returnedIn cwd inputDir outputDir (File name io # entries) =
     returnedIn cwd inputDir outputDir entries"
| "returnedIn cwd inputDir outputDir (Other name # entries) =
     returnedIn cwd inputDir outputDir entries"

definition successes :: "(string \<times> conversion option) list \<Rightarrow> conversion list" where
  "successes as = concat (map (\<lambda>(ext, result). case result of None \<Rightarrow> [] | Some r \<Rightarrow> [r]) as)"

text \<open>A tree without its entries that are neither files nor directories.\<close>

fun withoutOthers :: "readdir_result \<Rightarrow> readdir_result"
and withoutOthersIn :: "node list \<Rightarrow> node list"
where
  "withoutOthers (ReaddirFails message) = ReaddirFails message"
| "withoutOthers (Entries entries) = Entries (withoutOthersIn entries)"
| "withoutOthersIn [] = []"
| "withoutOthersIn (File name io # entries) = File name io # withoutOthersIn entries"
| "withoutOthersIn (Dir name listing # entries) =
     Dir name (withoutOthers listing) # withoutOthersIn entries"
| "withoutOthersIn (Other name # entries) = withoutOthersIn entries"

text \<open>
  What the probe of \<open>isAnimatedGif\<close> says in the specification's words: it fails, or it
  reports more than one page.
\<close>

definition probeSaysAnimated :: "file_io \<Rightarrow> bool" where
  "probeSaysAnimated io =
     (case metadataPages io of
        Inl err \<Rightarrow> True
      | Inr pages \<Rightarrow> (case pages of None \<Rightarrow> False | Some n \<Rightarrow> 1 < n))"

text \<open>Whether a run called the animation transcoder, and whether it called the static encoder.\<close>

definition usesTranscoder :: "event list \<Rightarrow> bool" where
  "usesTranscoder es = list_ex (\<lambda>e. case e of ExecGif2webp args \<Rightarrow> True | _ \<Rightarrow> False) es"

definition usesEncoder :: "event list \<Rightarrow> bool" where
  "usesEncoder es = list_ex (\<lambda>e. case e of SharpToFile i opts o' \<Rightarrow> True | _ \<Rightarrow> False) es"

text \<open>
  A failure during the read, the conversion or the stat of one file whose lowercased
  extension is \<open>ext\<close>: the size of the input cannot be read, the output directory cannot
  be made, the converter the file is routed to rejects it, or the size of the output
  cannot be read.
\<close>

definition conversionFails :: "file_io \<Rightarrow> string \<Rightarrow> bool" where
  "conversionFails io ext \<longleftrightarrow>
     isl (statInput io)
     \<or> (\<not> accessOutDir io \<and> mkdirOutDir io \<noteq> None)
     \<or> (if ext = ''.gif'' \<and> probeSaysAnimated io then gif2webpError io \<noteq> None
         else sharpError io \<noteq> None)
     \<or> isl (statOutput io)"

text \<open>The counters of a statistics record add up.\<close>

definition balanced :: "stats \<Rightarrow> bool" where
  "balanced st \<longleftrightarrow> totalFiles st = successfulConversions st + failedConversions st"

section \<open>Sample inputs\<close>

text \<open>
  What the outside answers for a file that converts without error from \<open>before\<close> bytes
  to \<open>after\<close> bytes, and for one whose encoder rejects it.
\<close>

definition sampleIo :: "nat \<Rightarrow> nat \<Rightarrow> file_io" where
  "sampleIo before after =
     \<lparr>statInput = Inr before, accessOutDir = True, mkdirOutDir = None,
      metadataPages = Inr (Some 1), gif2webpError = None, sharpError = None,
      statOutput = Inr after\<rparr>"

definition corruptIo :: file_io where
  "corruptIo =
     \<lparr>statInput = Inr 10, accessOutDir = True, mkdirOutDir = None,
      metadataPages = Inr (Some 1), gif2webpError = None,
      sharpError = Some ''Input file contains unsupported image format'',
      statOutput = Inr 0\<rparr>"

definition animatedIo :: "nat \<Rightarrow> file_io" where
  "animatedIo frames =
     \<lparr>statInput = Inr 9000, accessOutDir = False, mkdirOutDir = None,
      metadataPages = Inr (Some frames), gif2webpError = None, sharpError = None,
      statOutput = Inr 3000\<rparr>"

definition unreadableIo :: file_io where
  "unreadableIo =
     \<lparr>statInput = Inr 9000, accessOutDir = True, mkdirOutDir = None,
      metadataPages = Inl ''Input file is missing'', gif2webpError = None, sharpError = None,
      statOutput = Inr 3000\<rparr>"

definition sampleStatsA :: stats where
  "sampleStatsA =
     \<lparr>totalFiles = 3, successfulConversions = 2, failedConversions = 1,
      totalOriginalSize = 5000, totalNewSize = 2000, formats = [(''.png'', 2), (''.bmp'', 1)]\<rparr>"

definition sampleStatsB :: stats where
  "sampleStatsB =
     \<lparr>totalFiles = 4, successfulConversions = 4, failedConversions = 0,
      totalOriginalSize = 800, totalNewSize = 300, formats = [(''.gif'', 3), (''.png'', 1)]\<rparr>"

definition emptyWorld :: world where
  "emptyWorld =
     \<lparr>processCwd = ''/home/user/project'', accessPending = False, mkdirPending = None,
      accessConverted = True, mkdirConverted = None, pendingListing = Entries []\<rparr>"

text \<open>A directory of three files, the second of which the encoder rejects.\<close>

definition threeFiles :: "node list" where
  "threeFiles =
     [File ''a.png'' (sampleIo 1000 400), File ''b.jpg'' corruptIo, File ''c.png'' (sampleIo 10 4)]"

section \<open>Facts about the path functions\<close>

lemma splitSep_not_Nil: "splitSep s \<noteq> []"
  by (induction s) (auto split: list.splits)

lemma splitSep_append_sep: "splitSep (a @ CHR ''/'' # b) = splitSep a @ splitSep b"
proof (induction a)
  case Nil
  show ?case by simp
next
  case (Cons c a)
  obtain s ss where "splitSep a = s # ss"
    using splitSep_not_Nil [of a] by (cases "splitSep a") auto
  with Cons show ?case by simp
qed

lemma splitSep_no_sep: "CHR ''/'' \<notin> set s \<Longrightarrow> splitSep s = [s]"
  by (induction s) auto

lemma splitSep_joinSep_Cons:
  "\<forall>t \<in> set (s # ss). CHR ''/'' \<notin> set t \<Longrightarrow> splitSep (joinSep (s # ss)) = s # ss"
proof (induction ss arbitrary: s)
  case Nil
  then show ?case by (simp add: splitSep_no_sep)
next
  case (Cons t ts)
  have "joinSep (s # t # ts) = s @ CHR ''/'' # joinSep (t # ts)" by simp
  then have "splitSep (joinSep (s # t # ts)) = splitSep s @ splitSep (joinSep (t # ts))"
    by (simp only: splitSep_append_sep)
  moreover have "splitSep s = [s]" using Cons.prems by (simp add: splitSep_no_sep)
  moreover have "splitSep (joinSep (t # ts)) = t # ts" using Cons.prems by (intro Cons.IH) simp
  ultimately show ?case by simp
qed

lemma normalizeSegs_append:
  "normalizeSegs a res (xs @ ys) = normalizeSegs a (normalizeSegs a res xs) ys"
  by (induction xs arbitrary: res) auto

lemma normalizeSegs_valid:
  "\<forall>s \<in> set ys. validName s \<Longrightarrow> normalizeSegs a res ys = res @ ys"
  by (induction ys arbitrary: res) (auto simp: validName_def)

lemma joinSep_append:
  "xs \<noteq> [] \<Longrightarrow> joinSep (xs @ ys) = joinSep xs @ concat (map ((#) (CHR ''/'')) ys)"
  by (cases xs) auto

lemma joinSep_sep_joinSep:
  "xs \<noteq> [] \<Longrightarrow> ys \<noteq> [] \<Longrightarrow> joinSep xs @ CHR ''/'' # joinSep ys = joinSep (xs @ ys)"
  by (cases xs; cases ys) auto

lemma joinSep_valid_not_Nil:
  "xs \<noteq> [] \<Longrightarrow> \<forall>s \<in> set xs. validName s \<Longrightarrow> joinSep xs \<noteq> []"
  by (cases xs) (auto simp: validName_def)

lemma hd_joinSep_valid:
  assumes "xs \<noteq> []" "\<forall>s \<in> set xs. validName s"
  shows "hd (joinSep xs) \<noteq> CHR ''/''"
proof -
  obtain s ss where xs: "xs = s # ss" using assms(1) by (cases xs) auto
  then have s: "s \<noteq> []" "CHR ''/'' \<notin> set s" using assms(2) by (auto simp: validName_def)
  then have "hd s \<in> set s" by simp
  with s have "hd s \<noteq> CHR ''/''" by metis
  with s show ?thesis by (simp add: xs)
qed

lemma last_joinSep_valid:
  "xs \<noteq> [] \<Longrightarrow> \<forall>s \<in> set xs. validName s \<Longrightarrow> last (joinSep xs) \<noteq> CHR ''/''"
proof (induction xs rule: rev_induct)
  case Nil
  then show ?case by simp
next
  case (snoc x xs)
  then have x: "x \<noteq> []" "CHR ''/'' \<notin> set x" by (auto simp: validName_def)
  then have "last x \<in> set x" by simp
  with x have lx: "last x \<noteq> CHR ''/''" by metis
  show ?case
  proof (cases xs)
    case Nil
    with x lx show ?thesis by simp
  next
    case (Cons y ys)
    then have "joinSep (xs @ [x]) = joinSep xs @ CHR ''/'' # x" by simp
    with x lx show ?thesis by simp
  qed
qed

lemma path_normalize_valid:
  assumes "xs \<noteq> []" "\<forall>s \<in> set xs. validName s"
  shows "path_normalize (joinSep xs) = joinSep xs"
proof -
  obtain s ss where xs: "xs = s # ss" using assms(1) by (cases xs) auto
  have noSep: "\<forall>t \<in> set (s # ss). CHR ''/'' \<notin> set t" using assms(2) xs by (auto simp: validName_def)
  have split: "splitSep (joinSep xs) = xs"
    unfolding xs using noSep by (rule splitSep_joinSep_Cons)
  have norm: "normalizeString (joinSep xs) True = joinSep xs"
    by (simp add: normalizeString_def split normalizeSegs_valid assms(2))
  show ?thesis
    using joinSep_valid_not_Nil [OF assms] hd_joinSep_valid [OF assms] last_joinSep_valid [OF assms]
    by (simp add: path_normalize_def norm)
qed

lemma path_join_valid:
  assumes "xs \<noteq> []" "ys \<noteq> []" "\<forall>s \<in> set xs. validName s" "\<forall>s \<in> set ys. validName s"
  shows "path_join (joinSep xs) (joinSep ys) = joinSep (xs @ ys)"
proof -
  have a: "joinSep xs \<noteq> []" using assms by (simp add: joinSep_valid_not_Nil)
  have b: "joinSep ys \<noteq> []" using assms by (simp add: joinSep_valid_not_Nil)
  have c: "joinSep xs @ CHR ''/'' # joinSep ys = joinSep (xs @ ys)"
    using assms(1,2) by (rule joinSep_sep_joinSep)
  have "path_join (joinSep xs) (joinSep ys) = path_normalize (joinSep xs @ CHR ''/'' # joinSep ys)"
    using a b by (simp add: path_join_def Let_def)
  also have "\<dots> = path_normalize (joinSep (xs @ ys))"
    by (simp only: c)
  also have "\<dots> = joinSep (xs @ ys)"
    using assms by (intro path_normalize_valid) auto
  finally show ?thesis .
qed

lemma path_join_name:
  assumes "xs \<noteq> []" "\<forall>s \<in> set xs. validName s" "validName n"
  shows "path_join (joinSep xs) n = joinSep (xs @ [n])"
  using path_join_valid [of xs "[n]"] assms by simp

lemma foldl_path_join_valid:
  "xs \<noteq> [] \<Longrightarrow> \<forall>s \<in> set xs. validName s \<Longrightarrow> \<forall>s \<in> set ds. validName s \<Longrightarrow>
   foldl path_join (joinSep xs) ds = joinSep (xs @ ds)"
proof (induction ds arbitrary: xs)
  case Nil
  then show ?case by simp
next
  case (Cons d ds)
  have "path_join (joinSep xs) d = joinSep (xs @ [d])"
    using Cons.prems by (intro path_join_name) auto
  moreover have "foldl path_join (joinSep (xs @ [d])) ds = joinSep ((xs @ [d]) @ ds)"
    using Cons.prems by (intro Cons.IH) auto
  ultimately show ?case by simp
qed

lemma resolveSegs_valid:
  assumes "xs \<noteq> []" "\<forall>s \<in> set xs. validName s"
  shows "resolveSegs cwd (joinSep xs) = normalizeSegs False [] (splitSep cwd) @ xs"
proof -
  obtain s ss where xs: "xs = s # ss" using assms(1) by (cases xs) auto
  have noSep: "\<forall>t \<in> set (s # ss). CHR ''/'' \<notin> set t" using assms(2) xs by (auto simp: validName_def)
  have split: "splitSep (joinSep xs) = xs"
    unfolding xs using noSep by (rule splitSep_joinSep_Cons)
  show ?thesis
    using joinSep_valid_not_Nil [OF assms] hd_joinSep_valid [OF assms]
    by (simp add: resolveSegs_def splitSep_append_sep split normalizeSegs_append
        normalizeSegs_valid assms(2))
qed

lemma stripCommon_prefix: "stripCommon xs (xs @ ys) = ([], ys)"
proof (induction xs)
  case Nil
  show ?case by (cases ys) simp_all
next
  case (Cons x xs)
  then show ?case by simp
qed

lemma joinSep_inj_valid:
  assumes "xs \<noteq> []" "ys \<noteq> []" "\<forall>s \<in> set xs. validName s" "\<forall>s \<in> set ys. validName s"
    and "joinSep xs = joinSep ys"
  shows "xs = ys"
proof -
  obtain s ss where xs: "xs = s # ss" using assms(1) by (cases xs) auto
  obtain t ts where ys: "ys = t # ts" using assms(2) by (cases ys) auto
  have "xs = splitSep (joinSep xs)"
    unfolding xs using assms(3) xs by (intro splitSep_joinSep_Cons [symmetric]) (auto simp: validName_def)
  also have "\<dots> = splitSep (joinSep ys)"
    by (simp only: assms(5))
  also have "\<dots> = ys"
    unfolding ys using assms(4) ys by (intro splitSep_joinSep_Cons) (auto simp: validName_def)
  finally show ?thesis .
qed

lemma path_relative_below:
  assumes "xs \<noteq> []" "ys \<noteq> []" "\<forall>s \<in> set xs. validName s" "\<forall>s \<in> set ys. validName s"
  shows "path_relative cwd (joinSep xs) (joinSep (xs @ ys)) = joinSep ys"
proof -
  have ne: "joinSep xs \<noteq> joinSep (xs @ ys)"
  proof
    assume "joinSep xs = joinSep (xs @ ys)"
    then have "xs = xs @ ys" using assms by (intro joinSep_inj_valid) auto
    with assms(2) show False by simp
  qed
  have r1: "resolveSegs cwd (joinSep xs) = normalizeSegs False [] (splitSep cwd) @ xs"
    using assms by (intro resolveSegs_valid) auto
  have r2: "resolveSegs cwd (joinSep (xs @ ys)) = (normalizeSegs False [] (splitSep cwd) @ xs) @ ys"
    using assms resolveSegs_valid [of "xs @ ys" cwd] by auto
  show ?thesis
    using ne by (simp add: path_relative_def r1 r2 stripCommon_prefix del: append_assoc)
qed

section \<open>Facts about extensions\<close>

lemma path_basename_valid: "validName n \<Longrightarrow> path_basename n = n"
proof -
  assume "validName n"
  then have ns: "CHR ''/'' \<notin> set n" by (simp add: validName_def)
  have "dropWhile (\<lambda>c. c = CHR ''/'') (rev n) = rev n"
    using ns by (cases "rev n") (auto simp: rev_eq_Cons_iff)
  then have s: "stripTrailingSep n = n" by (simp add: stripTrailingSep_def)
  have tw: "takeWhile (\<lambda>c. c \<noteq> CHR ''/'') (rev n) = rev n"
    using ns by (auto simp: takeWhile_eq_all_conv)
  show ?thesis unfolding path_basename_def s tw by simp
qed

lemma path_extname_split:
  assumes "validName n" "path_extname n \<noteq> []"
  shows "\<exists>stem e. n = stem @ CHR ''.'' # e \<and> path_extname n = CHR ''.'' # e \<and> CHR ''.'' \<notin> set e"
proof -
  let ?P = "\<lambda>c. c \<noteq> CHR ''.''"
  have b: "path_basename n = n" using assms(1) by (rule path_basename_valid)
  from assms(2) have dot: "CHR ''.'' \<in> set n"
    by (auto simp: path_extname_def b Let_def split: if_splits)
  from assms(2) have ext: "path_extname n = CHR ''.'' # rev (takeWhile ?P (rev n))"
    by (auto simp: path_extname_def b Let_def split: if_splits)
  from dot have "dropWhile ?P (rev n) \<noteq> []" by (simp add: dropWhile_eq_Nil_conv) 
  moreover have "hd (dropWhile ?P (rev n)) = CHR ''.''"
    using calculation hd_dropWhile [of ?P "rev n"] by auto
  ultimately obtain r where r: "dropWhile ?P (rev n) = CHR ''.'' # r"
    by (cases "dropWhile ?P (rev n)") auto
  have "rev n = takeWhile ?P (rev n) @ dropWhile ?P (rev n)" by simp
  then have "rev n = takeWhile ?P (rev n) @ CHR ''.'' # r" by (simp only: r)
  then have "rev (rev n) = rev (takeWhile ?P (rev n) @ CHR ''.'' # r)" by (simp only:)
  then have n: "n = rev r @ CHR ''.'' # rev (takeWhile ?P (rev n))" by simp
  have "CHR ''.'' \<notin> set (rev (takeWhile ?P (rev n)))"
    using set_takeWhileD [of "CHR ''.''" ?P "rev n"] by auto
  with n ext show ?thesis by blast
qed

lemma path_extname_suffix:
  assumes "validName n"
  shows "n = withoutExtension n @ path_extname n"
proof (cases "path_extname n = []")
  case True
  then show ?thesis by (simp add: withoutExtension_def)
next
  case False
  then obtain stem e where "n = stem @ CHR ''.'' # e" "path_extname n = CHR ''.'' # e"
    using path_extname_split [OF assms] by blast
  then show ?thesis by (simp add: withoutExtension_def)
qed

lemma lowerChar_dot: "lowerChar c = CHR ''.'' \<longleftrightarrow> c = CHR ''.''"
  by (auto simp: lowerChar_def split: if_splits)

lemma supported_length: "toLowerCase x \<in> SUPPORTED_FORMATS \<Longrightarrow> 4 \<le> length x"
proof -
  assume "toLowerCase x \<in> SUPPORTED_FORMATS"
  then have "4 \<le> length (toLowerCase x)" by (auto simp: SUPPORTED_FORMATS_def)
  then show ?thesis by (simp add: toLowerCase_def)
qed

lemma supportedName_matches:
  assumes "validName n" "supportedName n"
  shows "matchesExtension (path_extname n)"
proof -
  have len: "4 \<le> length (path_extname n)"
    using assms(2) by (simp add: supportedName_def supported_length)
  then have "path_extname n \<noteq> []" by auto
  then obtain stem e where n: "n = stem @ CHR ''.'' # e" and ext: "path_extname n = CHR ''.'' # e"
    and nodot: "CHR ''.'' \<notin> set e"
    using path_extname_split [OF assms(1)] by blast
  have "CHR ''/'' \<notin> set n" using assms(1) by (simp add: validName_def)
  then have noslash: "CHR ''/'' \<notin> set e" using n by (metis Un_iff list.set_intros(2) set_append)
  have "e \<noteq> []" using len ext by auto
  with nodot noslash show ?thesis
    by (auto simp: matchesExtension_def ext list_all_iff)
qed

lemma matchesExtension_no_dot_after:
  "matchesExtension (c # s) \<Longrightarrow> CHR ''.'' \<notin> set s"
  by (auto simp: matchesExtension_def list_all_iff)

lemma replaceExtension_append:
  "matchesExtension x \<Longrightarrow> replaceExtension (pre @ x) = pre @ ''.webp''"
proof (induction pre)
  case Nil
  then show ?case by (cases x) (auto simp: matchesExtension_def)
next
  case (Cons c pre)
  from Cons.prems obtain e where x: "x = CHR ''.'' # e"
    by (cases x) (auto simp: matchesExtension_def)
  have "\<not> matchesExtension (c # pre @ x)"
  proof
    assume "matchesExtension (c # pre @ x)"
    then have "CHR ''.'' \<notin> set (pre @ x)" by (rule matchesExtension_no_dot_after)
    then show False by (simp add: x)
  qed
  then show ?case using Cons by simp
qed

lemma joinSep_last_append: "joinSep (xs @ [a @ b]) = joinSep (xs @ [a]) @ b"
  by (cases xs) auto

lemma replaceExtension_mirrored:
  assumes "validName n" "supportedName n"
  shows "replaceExtension (joinSep (xs @ [n])) = joinSep (xs @ [withoutExtension n @ ''.webp''])"
proof -
  have "joinSep (xs @ [n]) = joinSep (xs @ [withoutExtension n @ path_extname n])"
    using path_extname_suffix [OF assms(1)] by simp
  also have "\<dots> = joinSep (xs @ [withoutExtension n]) @ path_extname n"
    by (rule joinSep_last_append)
  finally have "replaceExtension (joinSep (xs @ [n]))
      = replaceExtension (joinSep (xs @ [withoutExtension n]) @ path_extname n)" by simp
  also have "\<dots> = joinSep (xs @ [withoutExtension n]) @ ''.webp''"
    using supportedName_matches [OF assms] by (rule replaceExtension_append)
  also have "\<dots> = joinSep (xs @ [withoutExtension n @ ''.webp''])"
    by (rule joinSep_last_append [symmetric])
  finally show ?thesis .
qed

lemma validName_root: "validName TO_BE_CONVERTED_DIR"
  by (simp add: validName_def TO_BE_CONVERTED_DIR_def)

lemma walker_paths:
  assumes ds: "\<forall>d \<in> set ds. validName d" and n: "validName name"
    and os: "os \<noteq> []" "\<forall>s \<in> set os. validName s"
  shows "path_join (foldl path_join TO_BE_CONVERTED_DIR ds) name = joinSep (TO_BE_CONVERTED_DIR # ds @ [name])"
    and "path_relative cwd TO_BE_CONVERTED_DIR (joinSep (TO_BE_CONVERTED_DIR # ds @ [name])) = joinSep (ds @ [name])"
    and "path_join (joinSep os) (joinSep (ds @ [name])) = joinSep (os @ ds @ [name])"
proof -
  have root: "joinSep [TO_BE_CONVERTED_DIR] = TO_BE_CONVERTED_DIR" by simp
  have "foldl path_join (joinSep [TO_BE_CONVERTED_DIR]) (ds @ [name]) = joinSep ([TO_BE_CONVERTED_DIR] @ (ds @ [name]))"
    using ds n validName_root by (intro foldl_path_join_valid) auto
  then show "path_join (foldl path_join TO_BE_CONVERTED_DIR ds) name = joinSep (TO_BE_CONVERTED_DIR # ds @ [name])"
    by (simp only: root foldl_append foldl.simps append.simps)
  have "path_relative cwd (joinSep [TO_BE_CONVERTED_DIR]) (joinSep ([TO_BE_CONVERTED_DIR] @ (ds @ [name]))) = joinSep (ds @ [name])"
    using ds n validName_root by (intro path_relative_below) auto
  then show "path_relative cwd TO_BE_CONVERTED_DIR (joinSep (TO_BE_CONVERTED_DIR # ds @ [name])) = joinSep (ds @ [name])"
    by (simp only: root append.simps)
  show "path_join (joinSep os) (joinSep (ds @ [name])) = joinSep (os @ ds @ [name])"
    using ds n os by (intro path_join_valid) auto
qed

section \<open>The mirrored output path (C3)\<close>

text \<open>
  C3. For every input file, the output path is the output root joined with the input
  path taken relative to the pending root, with the extension replaced by \<open>.webp\<close>.
  The pending root is the constant \<open>TO_BE_CONVERTED_DIR\<close>, against which the walker
  takes every relative path. Stated at any depth: in the call reached from the pending
  root through the directories \<open>dirs\<close>, a file \<open>name\<close> with a supported extension has
  the input path \<open>to-be-converted/dirs/name\<close>, its relative path is \<open>dirs/name\<close>,
  the path handed to \<open>convertFile\<close> is the mirrored path under the output root, and a
  subdirectory \<open>sub\<close> is walked with the input directory one level deeper. Names are those a
  directory listing can report; the output root is a relative path of such names.
\<close>

theorem mirrored_output_path:
  assumes "\<forall>d \<in> set dirs. validName d" and "validName name" and "supportedName name"
    and "outputRoot \<noteq> []" and "\<forall>s \<in> set outputRoot. validName s"
  shows "path_join (foldl path_join TO_BE_CONVERTED_DIR dirs) name
           = joinSep (TO_BE_CONVERTED_DIR # dirs @ [name])
       \<and> path_relative cwd TO_BE_CONVERTED_DIR (joinSep (TO_BE_CONVERTED_DIR # dirs @ [name]))
           = joinSep (dirs @ [name])
       \<and> replaceExtension (path_join (joinSep outputRoot) (joinSep (dirs @ [name])))
           = mirroredPath outputRoot dirs name
       \<and> fst (processEntry cwd (foldl path_join TO_BE_CONVERTED_DIR dirs) (joinSep outputRoot)
                (File name io) st)
           = fst (convertFile io (joinSep (TO_BE_CONVERTED_DIR # dirs @ [name]))
                   (mirroredPath outputRoot dirs name))
       \<and> fst (processEntry cwd (foldl path_join TO_BE_CONVERTED_DIR dirs) (joinSep outputRoot)
                (Dir sub listing) st)
           = fst (processDirectory cwd (foldl path_join TO_BE_CONVERTED_DIR (dirs @ [sub]))
                   (joinSep outputRoot) listing)"
proof -
  note p = walker_paths [OF assms(1,2,4,5)]
  have r: "replaceExtension (path_join (joinSep outputRoot) (joinSep (dirs @ [name])))
           = mirroredPath outputRoot dirs name"
    using replaceExtension_mirrored [OF assms(2,3), of "outputRoot @ dirs"]
    by (simp add: p(3) mirroredPath_def)
  have f: "fst (processEntry cwd (foldl path_join TO_BE_CONVERTED_DIR dirs) (joinSep outputRoot)
                (File name io) st)
           = fst (convertFile io (joinSep (TO_BE_CONVERTED_DIR # dirs @ [name]))
                   (mirroredPath outputRoot dirs name))"
    using assms(3) by (simp add: p(1) p(2) r supportedName_def Let_def split: prod.splits del: joinSep.simps)
  have d: "fst (processEntry cwd (foldl path_join TO_BE_CONVERTED_DIR dirs) (joinSep outputRoot)
                (Dir sub listing) st)
           = fst (processDirectory cwd (foldl path_join TO_BE_CONVERTED_DIR (dirs @ [sub]))
                   (joinSep outputRoot) listing)"
    by (simp split: prod.splits)
  from p(1) p(2) r f d show ?thesis by blast
qed

lemma mirroredPath_example: "mirroredPath [''output''] [''a'', ''b''] ''img.png'' = ''output/a/b/img.webp''"
  by (simp add: mirroredPath_def withoutExtension_def path_extname_def path_basename_def stripTrailingSep_def)

lemma supportedName_example: "supportedName ''img.png''"
  by (simp add: supportedName_def path_extname_def path_basename_def stripTrailingSep_def toLowerCase_def lowerChar_def SUPPORTED_FORMATS_def)

theorem mirrored_output_path_witness:
  "validName ''a'' \<and> validName ''b'' \<and> validName ''img.png'' \<and> supportedName ''img.png''
   \<and> validName ''output''
   \<and> replaceExtension (path_join ''output''
        (path_relative ''/home/user/project'' TO_BE_CONVERTED_DIR ''to-be-converted/a/b/img.png''))
      = ''output/a/b/img.webp''
   \<and> fst (processEntry ''/home/user/project'' ''to-be-converted/a/b'' ''output''
            (File ''img.png'' (sampleIo 1000 400)) emptyStats)
      = fst (convertFile (sampleIo 1000 400) ''to-be-converted/a/b/img.png'' ''output/a/b/img.webp'')"
proof -
  have v: "\<forall>d \<in> set [''a'', ''b'']. validName d" "validName ''img.png''"
    "[''output''] \<noteq> []" "\<forall>s \<in> set [''output'']. validName s"
    by (simp_all add: validName_def)
  have s: "supportedName ''img.png''" by (rule supportedName_example)
  have i: "joinSep (TO_BE_CONVERTED_DIR # [''a'', ''b''] @ [''img.png'']) = ''to-be-converted/a/b/img.png''"
    by (simp add: TO_BE_CONVERTED_DIR_def)
  have j: "joinSep ([''a'', ''b''] @ [''img.png'']) = ''a/b/img.png''" by simp
  note t = mirrored_output_path [OF v(1) v(2) s v(3) v(4), of "''/home/user/project''" "sampleIo 1000 400" emptyStats]
  have d: "foldl path_join TO_BE_CONVERTED_DIR [''a'', ''b''] = ''to-be-converted/a/b''"
    using foldl_path_join_valid [of "[TO_BE_CONVERTED_DIR]" "[''a'', ''b'']"] v(1) validName_root
    by (simp add: TO_BE_CONVERTED_DIR_def)
  have t3: "replaceExtension (path_join ''output''
        (path_relative ''/home/user/project'' TO_BE_CONVERTED_DIR ''to-be-converted/a/b/img.png''))
      = ''output/a/b/img.webp''"
    using t unfolding i j mirroredPath_example d by simp
  have t4: "fst (processEntry ''/home/user/project'' ''to-be-converted/a/b'' ''output''
            (File ''img.png'' (sampleIo 1000 400)) emptyStats)
      = fst (convertFile (sampleIo 1000 400) ''to-be-converted/a/b/img.png'' ''output/a/b/img.webp'')"
    using t unfolding i j mirroredPath_example d by (simp del: processEntry.simps)
  from v s t3 t4 show ?thesis by simp
qed

section \<open>Two inductions over the walk\<close>

text \<open>
  Every property of the statistics is either an invariant of the three updates the walk
  makes (the empty record, the merge of a subdirectory, the count of one file), or a
  quantity that each update increases by what the conversions of the walk contribute.
\<close>

lemma invariant_walk:
  assumes empty: "I emptyStats"
    and merge: "\<And>st sub. I st \<Longrightarrow> I sub \<Longrightarrow> I (mergeStats st sub)"
    and conv: "\<And>st ext result. I st \<Longrightarrow>
        I (recordConversion (st\<lparr>totalFiles := totalFiles st + 1,
             formats := setProp (formats st) ext (getCount (formats st) ext + 1)\<rparr>) result)"
  shows "I (snd (processDirectory cwd inputDir outputDir listing))"
    and "I st \<Longrightarrow> I (snd (processEntries cwd inputDir outputDir entries st))"
    and "I st \<Longrightarrow> I (snd (processEntry cwd inputDir outputDir entry st))"
proof (induction cwd inputDir outputDir listing and cwd inputDir outputDir entries st
    and cwd inputDir outputDir entry st rule: processDirectory_processEntries_processEntry.induct)
  case (1 cwd inputDir outputDir message)
  show ?case by (simp add: empty)
next
  case (2 cwd inputDir outputDir entries)
  obtain es st' where e: "processEntries cwd inputDir outputDir entries emptyStats = (es, st')"
    by (cases "processEntries cwd inputDir outputDir entries emptyStats")
  from "2.IH" [OF empty] show ?case by (simp add: e)
next
  case (3 cwd inputDir outputDir st)
  then show ?case by simp
next
  case (4 cwd inputDir outputDir entry entries st)
  obtain es st' where e: "processEntry cwd inputDir outputDir entry st = (es, st')"
    by (cases "processEntry cwd inputDir outputDir entry st")
  obtain es' st'' where e': "processEntries cwd inputDir outputDir entries st' = (es', st'')"
    by (cases "processEntries cwd inputDir outputDir entries st'")
  have "I st'"
    using "4.IH"(1) [OF "4.prems"] by (simp add: e)
  from "4.IH"(2) [OF e [symmetric] this] show ?case
    by (simp add: e e')
next
  case (5 cwd inputDir outputDir name listing st)
  obtain es sub where e: "processDirectory cwd (path_join inputDir name) outputDir listing = (es, sub)"
    by (cases "processDirectory cwd (path_join inputDir name) outputDir listing")
  from "5.IH" [OF refl] have "I sub" by (simp add: e)
  with "5.prems" show ?case
    by (simp add: e merge)
next
  case (6 cwd inputDir outputDir name io st)
  obtain es result where e: "convertFile io (path_join inputDir name)
      (replaceExtension (path_join outputDir
         (path_relative cwd TO_BE_CONVERTED_DIR (path_join inputDir name)))) = (es, result)"
    by (cases "convertFile io (path_join inputDir name)
      (replaceExtension (path_join outputDir
         (path_relative cwd TO_BE_CONVERTED_DIR (path_join inputDir name))))")
  show ?case
    using conv [OF "6.prems"] "6.prems" by (simp add: Let_def e del: One_nat_def add: )
next
  case (7 cwd inputDir outputDir name st)
  then show ?case by simp
qed

lemma additive_walk:
  fixes m :: "stats \<Rightarrow> nat" and w :: "string \<times> conversion option \<Rightarrow> nat"
  assumes empty: "m emptyStats = 0"
    and merge: "\<And>st sub. m (mergeStats st sub) = m st + m sub"
    and conv: "\<And>st ext result.
        m (recordConversion (st\<lparr>totalFiles := totalFiles st + 1,
             formats := setProp (formats st) ext (getCount (formats st) ext + 1)\<rparr>) result)
        = m st + w (ext, result)"
  shows "m (snd (processDirectory cwd inputDir outputDir listing))
           = sum_list (map w (attempts cwd inputDir outputDir listing))"
    and "m (snd (processEntries cwd inputDir outputDir entries st))
           = m st + sum_list (map w (attemptsIn cwd inputDir outputDir entries))"
    and "m (snd (processEntry cwd inputDir outputDir entry st))
           = m st + sum_list (map w (attemptsAt cwd inputDir outputDir entry))"
proof (induction cwd inputDir outputDir listing and cwd inputDir outputDir entries st
    and cwd inputDir outputDir entry st rule: processDirectory_processEntries_processEntry.induct)
  case (1 cwd inputDir outputDir message)
  show ?case by (simp add: empty)
next
  case (2 cwd inputDir outputDir entries)
  obtain es st' where e: "processEntries cwd inputDir outputDir entries emptyStats = (es, st')"
    by (cases "processEntries cwd inputDir outputDir entries emptyStats")
  from "2.IH" show ?case by (simp add: e empty)
next
  case (3 cwd inputDir outputDir st)
  then show ?case by simp
next
  case (4 cwd inputDir outputDir entry entries st)
  obtain es st' where e: "processEntry cwd inputDir outputDir entry st = (es, st')"
    by (cases "processEntry cwd inputDir outputDir entry st")
  obtain es' st'' where e': "processEntries cwd inputDir outputDir entries st' = (es', st'')"
    by (cases "processEntries cwd inputDir outputDir entries st'")
  have a: "m st' = m st + sum_list (map w (attemptsAt cwd inputDir outputDir entry))"
    using "4.IH"(1) by (simp add: e)
  have b: "m st'' = m st' + sum_list (map w (attemptsIn cwd inputDir outputDir entries))"
    using "4.IH"(2) [OF e [symmetric]] by (simp add: e')
  show ?case
    by (simp add: e e' a b)
next
  case (5 cwd inputDir outputDir name listing st)
  obtain es sub where e: "processDirectory cwd (path_join inputDir name) outputDir listing = (es, sub)"
    by (cases "processDirectory cwd (path_join inputDir name) outputDir listing")
  from "5.IH" [OF refl]
  have "m sub = sum_list (map w (attempts cwd (path_join inputDir name) outputDir listing))"
    by (simp add: e)
  then show ?case
    by (simp add: e merge)
next
  case (6 cwd inputDir outputDir name io st)
  obtain es result where e: "convertFile io (path_join inputDir name)
      (replaceExtension (path_join outputDir
         (path_relative cwd TO_BE_CONVERTED_DIR (path_join inputDir name)))) = (es, result)"
    by (cases "convertFile io (path_join inputDir name)
      (replaceExtension (path_join outputDir
         (path_relative cwd TO_BE_CONVERTED_DIR (path_join inputDir name))))")
  show ?case
    using conv [of st "toLowerCase (path_extname name)" result]
    by (simp add: Let_def e del: One_nat_def)
next
  case (7 cwd inputDir outputDir name st)
  then show ?case by simp
qed

section \<open>Facts about the formats object\<close>

lemma map_of_setProp: "map_of (setProp obj key v) = (map_of obj)(key \<mapsto> v)"
  by (induction obj key v rule: setProp.induct) auto

lemma getCount_setProp:
  "getCount (setProp obj key v) k = (if k = key then v else getCount obj k)"
  by (simp add: getCount_def map_of_setProp)

lemma keys_setProp:
  "map fst (setProp obj key v) = (if key \<in> fst ` set obj then map fst obj else map fst obj @ [key])"
  by (induction obj key v rule: setProp.induct) auto

lemma distinct_setProp:
  "distinct (map fst obj) \<Longrightarrow> distinct (map fst (setProp obj key v))"
  by (simp add: keys_setProp)

lemma sum_setProp:
  "sum_list (map snd (setProp obj key (getCount obj key + c))) = sum_list (map snd obj) + c"
  by (induction obj key "getCount obj key + c" rule: setProp.induct)
     (auto simp: getCount_def)

lemma mergeFormats_Nil: "mergeFormats obj [] = obj"
  by (simp add: mergeFormats_def)

lemma mergeFormats_Cons:
  "mergeFormats obj ((key, c) # sub) = mergeFormats (setProp obj key (getCount obj key + c)) sub"
  by (simp add: mergeFormats_def)

lemma sum_mergeFormats:
  "sum_list (map snd (mergeFormats obj sub)) = sum_list (map snd obj) + sum_list (map snd sub)"
proof (induction sub arbitrary: obj)
  case Nil
  show ?case by (simp add: mergeFormats_Nil)
next
  case (Cons p sub)
  obtain key c where p: "p = (key, c)" by (cases p)
  show ?case by (simp add: p mergeFormats_Cons Cons.IH sum_setProp)
qed

lemma distinct_mergeFormats:
  "distinct (map fst obj) \<Longrightarrow> distinct (map fst (mergeFormats obj sub))"
proof (induction sub arbitrary: obj)
  case Nil
  then show ?case by (simp add: mergeFormats_Nil)
next
  case (Cons p sub)
  obtain key c where p: "p = (key, c)" by (cases p)
  show ?case using Cons.prems by (simp add: p mergeFormats_Cons Cons.IH distinct_setProp)
qed

text \<open>All that a list of properties holds for one key.\<close>

lemma held_absent:
  "k \<notin> fst ` set sub \<Longrightarrow> sum_list (map snd (filter (\<lambda>p. fst p = k) sub)) = 0"
  by (induction sub) auto

lemma map_of_mergeFormats:
  "map_of (mergeFormats obj sub) k =
     (if k \<in> fst ` set sub
      then Some (getCount obj k + sum_list (map snd (filter (\<lambda>p. fst p = k) sub)))
      else map_of obj k)"
proof (induction sub arbitrary: obj)
  case Nil
  show ?case by (simp add: mergeFormats_Nil)
next
  case (Cons p sub)
  obtain key c where p: "p = (key, c)" by (cases p)
  show ?case
  proof (cases "key = k")
    case True
    show ?thesis
      unfolding p True mergeFormats_Cons Cons.IH
      by (simp add: getCount_setProp map_of_setProp held_absent)
  next
    case False
    then show ?thesis
      unfolding p mergeFormats_Cons Cons.IH
      by (simp add: getCount_setProp map_of_setProp)
  qed
qed

lemma getCount_mergeFormats:
  "getCount (mergeFormats obj sub) k
     = getCount obj k + sum_list (map snd (filter (\<lambda>p. fst p = k) sub))"
proof -
  show ?thesis
    by (simp add: getCount_def [of "mergeFormats obj sub"] map_of_mergeFormats held_absent)
       (simp add: getCount_def)
qed

lemma held_distinct:
  "distinct (map fst sub) \<Longrightarrow>
   sum_list (map snd (filter (\<lambda>p. fst p = k) sub)) = getCount sub k"
proof (induction sub)
  case Nil
  show ?case by (simp add: getCount_def)
next
  case (Cons p sub)
  obtain key c where p: "p = (key, c)" by (cases p)
  show ?case
  proof (cases "k = key")
    case True
    with Cons.prems have "k \<notin> fst ` set sub" by (simp add: p)
    with True show ?thesis by (simp add: p getCount_def held_absent)
  next
    case False
    with Cons show ?thesis by (simp add: p getCount_def)
  qed
qed

lemma map_of_mergeFormats_distinct:
  assumes "distinct (map fst sub)"
  shows "map_of (mergeFormats obj sub) k =
     (case map_of sub k of None \<Rightarrow> map_of obj k | Some c \<Rightarrow> Some (getCount obj k + c))"
proof (cases "map_of sub k")
  case None
  then have "k \<notin> fst ` set sub" by (simp add: map_of_eq_None_iff)
  with None show ?thesis by (simp add: map_of_mergeFormats)
next
  case (Some c)
  then have "k \<in> fst ` set sub" by (metis map_of_eq_None_iff option.distinct(1))
  moreover have "getCount sub k = c" using Some by (simp add: getCount_def)
  ultimately show ?thesis
    using Some by (simp add: map_of_mergeFormats held_distinct [OF assms])
qed

lemma map_of_mergeFormats_commute:
  "map_of (mergeFormats (mergeFormats obj a) b) k = map_of (mergeFormats (mergeFormats obj b) a) k"
  by (simp add: map_of_mergeFormats getCount_mergeFormats held_absent)

section \<open>The counters add up (C1)\<close>

lemma balanced_empty: "balanced emptyStats"
  by (simp add: balanced_def emptyStats_def)

lemma balanced_mergeStats: "balanced st \<Longrightarrow> balanced sub \<Longrightarrow> balanced (mergeStats st sub)"
  by (simp add: mergeStats_def balanced_def)

lemma balanced_recordConversion:
  "balanced st \<Longrightarrow>
   balanced (recordConversion (st\<lparr>totalFiles := totalFiles st + 1, formats := obj\<rparr>) result)"
  by (cases result) (simp_all add: recordConversion_def balanced_def)

lemma balanced_walk: "balanced (snd (processDirectory cwd inputDir outputDir listing))"
  by (rule invariant_walk(1) [of balanced])
     (simp_all add: balanced_empty balanced_mergeStats balanced_recordConversion del: One_nat_def)

lemma balanced_returned:
  "list_all balanced (returned cwd inputDir outputDir listing)"
  "list_all balanced (returnedIn cwd inputDir outputDir entries)"
proof (induction cwd inputDir outputDir listing and cwd inputDir outputDir entries
    rule: returned_returnedIn.induct)
  case (1 cwd inputDir outputDir message)
  show ?case
    using balanced_walk [of cwd inputDir outputDir "ReaddirFails message"]
    by (simp del: processDirectory.simps)
next
  case (2 cwd inputDir outputDir entries)
  then show ?case
    using balanced_walk [of cwd inputDir outputDir "Entries entries"]
    by (simp del: processDirectory.simps)
qed simp_all

text \<open>
  C1. For every directory tree, the statistics returned by the walk satisfy
  \<open>totalFiles = successfulConversions + failedConversions\<close>, and so does the record
  returned by each recursive call of the walk, at every depth.
\<close>

theorem totalFiles_balance:
  "totalFiles (snd (processDirectory cwd inputDir outputDir listing))
     = successfulConversions (snd (processDirectory cwd inputDir outputDir listing))
       + failedConversions (snd (processDirectory cwd inputDir outputDir listing))
   \<and> list_all (\<lambda>s. totalFiles s = successfulConversions s + failedConversions s)
         (returned cwd inputDir outputDir listing)"
  using balanced_walk [of cwd inputDir outputDir listing]
    balanced_returned(1) [of cwd inputDir outputDir listing]
  by (simp add: balanced_def [abs_def])
section \<open>Byte totals (C8)\<close>

lemma sum_successes:
  "sum_list (map (\<lambda>(ext, result). case result of None \<Rightarrow> 0 | Some r \<Rightarrow> f r) as)
     = sum_list (map f (successes as))"
  by (induction as) (auto simp: successes_def split: option.splits)

text \<open>
  C8. In the statistics of a walk, \<open>totalOriginalSize\<close> and \<open>totalNewSize\<close> are the
  sums of the two sizes over the successful conversions of the walk, of which
  \<open>successfulConversions\<close> is the number; recording a failed conversion leaves both
  byte totals as they were.
\<close>

theorem byte_totals_over_successes:
  "totalOriginalSize (snd (processDirectory cwd inputDir outputDir listing))
     = sum_list (map originalSize (successes (attempts cwd inputDir outputDir listing)))
   \<and> totalNewSize (snd (processDirectory cwd inputDir outputDir listing))
     = sum_list (map newSize (successes (attempts cwd inputDir outputDir listing)))
   \<and> successfulConversions (snd (processDirectory cwd inputDir outputDir listing))
     = length (successes (attempts cwd inputDir outputDir listing))
   \<and> totalOriginalSize (recordConversion st None) = totalOriginalSize st
   \<and> totalNewSize (recordConversion st None) = totalNewSize st"
proof -
  let ?as = "attempts cwd inputDir outputDir listing"
  let ?s = "snd (processDirectory cwd inputDir outputDir listing)"
  have "totalOriginalSize ?s
      = sum_list (map (\<lambda>(ext, result). case result of None \<Rightarrow> 0 | Some r \<Rightarrow> originalSize r) ?as)"
    by (rule additive_walk(1))
       (simp_all add: emptyStats_def mergeStats_def recordConversion_def split: option.splits)
  then have a: "totalOriginalSize ?s = sum_list (map originalSize (successes ?as))"
    by (simp only: sum_successes)
  have "totalNewSize ?s
      = sum_list (map (\<lambda>(ext, result). case result of None \<Rightarrow> 0 | Some r \<Rightarrow> newSize r) ?as)"
    by (rule additive_walk(1))
       (simp_all add: emptyStats_def mergeStats_def recordConversion_def split: option.splits)
  then have b: "totalNewSize ?s = sum_list (map newSize (successes ?as))"
    by (simp only: sum_successes)
  have "successfulConversions ?s
      = sum_list (map (\<lambda>(ext, result). case result of None \<Rightarrow> 0 | Some r \<Rightarrow> (\<lambda>_. 1) r) ?as)"
    by (rule additive_walk(1))
       (simp_all add: emptyStats_def mergeStats_def recordConversion_def split: option.splits)
  then have "successfulConversions ?s = sum_list (map (\<lambda>_. 1) (successes ?as))"
    by (simp only: sum_successes)
  then have c: "successfulConversions ?s = length (successes ?as)"
    by (simp add: sum_list_triv)
  have d: "totalOriginalSize (recordConversion st None) = totalOriginalSize st"
    "totalNewSize (recordConversion st None) = totalNewSize st"
    by (simp_all add: recordConversion_def)
  from a b c d show ?thesis by simp
qed

section \<open>Format counts (C9)\<close>

lemma formats_recordConversion: "formats (recordConversion st result) = formats st"
  by (cases result) (simp_all add: recordConversion_def)

lemma attempts_supported:
  "fst ` set (attempts cwd inputDir outputDir listing) \<subseteq> SUPPORTED_FORMATS"
  "fst ` set (attemptsIn cwd inputDir outputDir entries) \<subseteq> SUPPORTED_FORMATS"
  "fst ` set (attemptsAt cwd inputDir outputDir entry) \<subseteq> SUPPORTED_FORMATS"
  by (induction cwd inputDir outputDir listing and cwd inputDir outputDir entries
      and cwd inputDir outputDir entry rule: attempts_attemptsIn_attemptsAt.induct)
     (auto simp: Let_def)

lemma sum_indicator_length:
  "sum_list (map (\<lambda>a. if P a then 1 else 0) xs) = length (filter P xs)"
  by (induction xs) auto

lemma held_setProp:
  "sum_list (map snd (filter (\<lambda>p. fst p = k) (setProp obj key (getCount obj key + c))))
     = sum_list (map snd (filter (\<lambda>p. fst p = k) obj)) + (if k = key then c else 0)"
  by (induction obj key "getCount obj key + c" rule: setProp.induct)
     (auto simp: getCount_def)

lemma held_mergeFormats:
  "sum_list (map snd (filter (\<lambda>p. fst p = k) (mergeFormats obj sub)))
     = sum_list (map snd (filter (\<lambda>p. fst p = k) obj))
       + sum_list (map snd (filter (\<lambda>p. fst p = k) sub))"
proof (induction sub arbitrary: obj)
  case Nil
  show ?case by (simp add: mergeFormats_Nil)
next
  case (Cons p sub)
  obtain key c where p: "p = (key, c)" by (cases p)
  show ?case by (simp add: p mergeFormats_Cons Cons.IH held_setProp)
qed

text \<open>
  C9. In the statistics of a walk, the counts of the \<open>formats\<close> object sum to
  \<open>totalFiles\<close>, which is the number of files with a supported extension that the walk
  reached; the object has one property per key, and the count under a key is the number
  of those files whose lowercased extension is the key, whether their conversion
  succeeded or failed. Every key is a supported extension.
\<close>

theorem formatCounts_sum_to_totalFiles:
  "sum_list (map snd (formats (snd (processDirectory cwd inputDir outputDir listing))))
     = totalFiles (snd (processDirectory cwd inputDir outputDir listing))
   \<and> totalFiles (snd (processDirectory cwd inputDir outputDir listing))
     = length (attempts cwd inputDir outputDir listing)
   \<and> distinct (map fst (formats (snd (processDirectory cwd inputDir outputDir listing))))
   \<and> getCount (formats (snd (processDirectory cwd inputDir outputDir listing))) k
     = length (filter (\<lambda>a. fst a = k) (attempts cwd inputDir outputDir listing))
   \<and> fst ` set (attempts cwd inputDir outputDir listing) \<subseteq> SUPPORTED_FORMATS"
proof -
  let ?as = "attempts cwd inputDir outputDir listing"
  let ?s = "snd (processDirectory cwd inputDir outputDir listing)"
  have "sum_list (map snd (formats ?s)) = sum_list (map (\<lambda>a. 1) ?as)"
    by (rule additive_walk(1) [of "\<lambda>st. sum_list (map snd (formats st))"])
       (simp_all add: emptyStats_def mergeStats_def sum_mergeFormats formats_recordConversion
          sum_setProp del: One_nat_def)
  then have a: "sum_list (map snd (formats ?s)) = length ?as" by (simp add: sum_list_triv)
  have "totalFiles ?s = sum_list (map (\<lambda>a. 1) ?as)"
    by (rule additive_walk(1))
       (simp_all add: emptyStats_def mergeStats_def recordConversion_def split: option.splits)
  then have b: "totalFiles ?s = length ?as" by (simp add: sum_list_triv)
  have c: "distinct (map fst (formats ?s))"
    by (rule invariant_walk(1) [of "\<lambda>st. distinct (map fst (formats st))"])
       (simp_all add: emptyStats_def mergeStats_def distinct_mergeFormats formats_recordConversion
          distinct_setProp)
  have "sum_list (map snd (filter (\<lambda>p. fst p = k) (formats ?s)))
      = sum_list (map (\<lambda>a. if fst a = k then 1 else 0) ?as)"
    by (rule additive_walk(1) [of "\<lambda>st. sum_list (map snd (filter (\<lambda>p. fst p = k) (formats st)))"])
       (simp_all add: emptyStats_def mergeStats_def formats_recordConversion
          held_mergeFormats held_setProp del: One_nat_def)
  then have "getCount (formats ?s) k = sum_list (map (\<lambda>a. if fst a = k then 1 else 0) ?as)"
    by (simp only: held_distinct [OF c])
  also have "\<dots> = length (filter (\<lambda>a. fst a = k) ?as)"
    by (rule sum_indicator_length)
  finally have d: "getCount (formats ?s) k = length (filter (\<lambda>a. fst a = k) ?as)" .
  from a b c d attempts_supported(1) [of cwd inputDir outputDir listing]
  show ?thesis by simp
qed

section \<open>The merge (C2)\<close>

text \<open>
  C2. The merge adds \<open>totalFiles\<close>, \<open>successfulConversions\<close>,
  \<open>failedConversions\<close>, \<open>totalOriginalSize\<close> and \<open>totalNewSize\<close>; in \<open>formats\<close>
  a key of both sides holds the sum of its two counts and a key of one side only keeps
  its count. Consequently merging \<open>a\<close> then \<open>b\<close> into any record \<open>p\<close> gives the same
  totals and the same count under every key as merging \<open>b\<close> then \<open>a\<close>. The subtree's
  \<open>formats\<close> is an object, so its keys are distinct.
\<close>

theorem merge_adds_and_commutes:
  assumes "distinct (map fst (formats b))"
  shows "totalFiles (mergeStats a b) = totalFiles a + totalFiles b
       \<and> successfulConversions (mergeStats a b) = successfulConversions a + successfulConversions b
       \<and> failedConversions (mergeStats a b) = failedConversions a + failedConversions b
       \<and> totalOriginalSize (mergeStats a b) = totalOriginalSize a + totalOriginalSize b
       \<and> totalNewSize (mergeStats a b) = totalNewSize a + totalNewSize b
       \<and> map_of (formats (mergeStats a b)) k =
           (case map_of (formats b) k of
              None \<Rightarrow> map_of (formats a) k
            | Some c \<Rightarrow> Some (getCount (formats a) k + c))
       \<and> totalFiles (mergeStats (mergeStats p a) b) = totalFiles (mergeStats (mergeStats p b) a)
       \<and> successfulConversions (mergeStats (mergeStats p a) b)
           = successfulConversions (mergeStats (mergeStats p b) a)
       \<and> failedConversions (mergeStats (mergeStats p a) b)
           = failedConversions (mergeStats (mergeStats p b) a)
       \<and> totalOriginalSize (mergeStats (mergeStats p a) b)
           = totalOriginalSize (mergeStats (mergeStats p b) a)
       \<and> totalNewSize (mergeStats (mergeStats p a) b)
           = totalNewSize (mergeStats (mergeStats p b) a)
       \<and> map_of (formats (mergeStats (mergeStats p a) b))
           = map_of (formats (mergeStats (mergeStats p b) a))"
proof -
  have n: "totalFiles (mergeStats a b) = totalFiles a + totalFiles b"
    "successfulConversions (mergeStats a b) = successfulConversions a + successfulConversions b"
    "failedConversions (mergeStats a b) = failedConversions a + failedConversions b"
    "totalOriginalSize (mergeStats a b) = totalOriginalSize a + totalOriginalSize b"
    "totalNewSize (mergeStats a b) = totalNewSize a + totalNewSize b"
    by (simp_all add: mergeStats_def)
  have f: "map_of (formats (mergeStats a b)) k =
           (case map_of (formats b) k of
              None \<Rightarrow> map_of (formats a) k
            | Some c \<Rightarrow> Some (getCount (formats a) k + c))"
    using map_of_mergeFormats_distinct [OF assms] by (simp add: mergeStats_def)
  have c: "totalFiles (mergeStats (mergeStats p a) b) = totalFiles (mergeStats (mergeStats p b) a)"
    "successfulConversions (mergeStats (mergeStats p a) b)
           = successfulConversions (mergeStats (mergeStats p b) a)"
    "failedConversions (mergeStats (mergeStats p a) b)
           = failedConversions (mergeStats (mergeStats p b) a)"
    "totalOriginalSize (mergeStats (mergeStats p a) b)
           = totalOriginalSize (mergeStats (mergeStats p b) a)"
    "totalNewSize (mergeStats (mergeStats p a) b)
           = totalNewSize (mergeStats (mergeStats p b) a)"
    by (simp_all add: mergeStats_def)
  have "\<And>x. map_of (formats (mergeStats (mergeStats p a) b)) x
           = map_of (formats (mergeStats (mergeStats p b) a)) x"
    by (simp add: mergeStats_def map_of_mergeFormats_commute)
  then have g: "map_of (formats (mergeStats (mergeStats p a) b))
           = map_of (formats (mergeStats (mergeStats p b) a))"
    by (rule ext)
  from n f c g show ?thesis by simp
qed

lemma sample_merge:
  "mergeStats sampleStatsA sampleStatsB =
     \<lparr>totalFiles = 7, successfulConversions = 6, failedConversions = 1,
      totalOriginalSize = 5800, totalNewSize = 2300,
      formats = [(''.png'', 3), (''.bmp'', 1), (''.gif'', 3)]\<rparr>"
  by (simp add: mergeStats_def mergeFormats_def getCount_def sampleStatsA_def sampleStatsB_def)

lemma sample_merge_reverse:
  "formats (mergeStats (mergeStats emptyStats sampleStatsB) sampleStatsA)
     = [(''.gif'', 3), (''.png'', 3), (''.bmp'', 1)]"
  by (simp add: mergeStats_def mergeFormats_def getCount_def sampleStatsA_def sampleStatsB_def
      emptyStats_def)

theorem merge_adds_and_commutes_witness:
  "distinct (map fst (formats sampleStatsB))
   \<and> totalFiles (mergeStats sampleStatsA sampleStatsB) = 7
   \<and> map_of (formats (mergeStats sampleStatsA sampleStatsB)) ''.png'' = Some 3
   \<and> map_of (formats (mergeStats sampleStatsA sampleStatsB)) ''.gif'' = Some 3
   \<and> map_of (formats (mergeStats sampleStatsA sampleStatsB)) ''.bmp'' = Some 1
   \<and> map_of (formats (mergeStats (mergeStats emptyStats sampleStatsA) sampleStatsB))
       = map_of (formats (mergeStats (mergeStats emptyStats sampleStatsB) sampleStatsA))"
proof -
  have d: "distinct (map fst (formats sampleStatsB))" by (simp add: sampleStatsB_def)
  note t = merge_adds_and_commutes [OF d, of sampleStatsA _ emptyStats]
  have a: "totalFiles (mergeStats sampleStatsA sampleStatsB) = 7"
    using t [of "''.png''"] by (simp add: sampleStatsA_def sampleStatsB_def)
  have p: "map_of (formats (mergeStats sampleStatsA sampleStatsB)) ''.png'' = Some 3"
    using t [of "''.png''"] by (simp add: sampleStatsA_def sampleStatsB_def getCount_def)
  have g: "map_of (formats (mergeStats sampleStatsA sampleStatsB)) ''.gif'' = Some 3"
    using t [of "''.gif''"] by (simp add: sampleStatsA_def sampleStatsB_def getCount_def)
  have b: "map_of (formats (mergeStats sampleStatsA sampleStatsB)) ''.bmp'' = Some 1"
    using t [of "''.bmp''"] by (simp add: sampleStatsA_def sampleStatsB_def getCount_def)
  have c: "map_of (formats (mergeStats (mergeStats emptyStats sampleStatsA) sampleStatsB))
       = map_of (formats (mergeStats (mergeStats emptyStats sampleStatsB) sampleStatsA))"
    using t [of "''.png''"] by simp
  from d a p g b c show ?thesis by simp
qed

section \<open>Entries that are neither files nor directories (C10)\<close>

lemma withoutOthers_walk:
  "\<forall>inputDir. processDirectory cwd inputDir outputDir (withoutOthers listing)
     = processDirectory cwd inputDir outputDir listing"
  "\<forall>inputDir st. processEntries cwd inputDir outputDir (withoutOthersIn entries) st
     = processEntries cwd inputDir outputDir entries st"
  by (induction listing and entries rule: withoutOthers_withoutOthersIn.induct) simp_all

text \<open>
  C10. An entry that is neither a regular file nor a directory makes the walker call
  nothing and change nothing, and the walk of a tree returns the same statistics, after
  the same calls, as the walk of the tree with such entries removed at every level.
\<close>

theorem others_contribute_nothing:
  "processDirectory cwd inputDir outputDir (withoutOthers listing)
     = processDirectory cwd inputDir outputDir listing
   \<and> processEntry cwd inputDir outputDir (Other name) st = ([], st)"
  using withoutOthers_walk(1) [of cwd outputDir listing] by simp

section \<open>Routing between the two converters (C6)\<close>

lemma isAnimatedGif_probe:
  "isAnimatedGif io filePath = ([SharpMetadata filePath], Inr (probeSaysAnimated io))"
  by (auto simp: isAnimatedGif_def probeSaysAnimated_def split: sum.splits option.splits)

lemma usesTranscoder_simps:
  "usesTranscoder [] = False"
  "usesTranscoder (ExecGif2webp args # es) = True"
  "usesTranscoder (FsStat p # es) = usesTranscoder es"
  "usesTranscoder (FsAccess p # es) = usesTranscoder es"
  "usesTranscoder (FsMkdir p # es) = usesTranscoder es"
  "usesTranscoder (FsReaddir p # es) = usesTranscoder es"
  "usesTranscoder (SharpMetadata p # es) = usesTranscoder es"
  "usesTranscoder (SharpToFile i opts out # es) = usesTranscoder es"
  "usesTranscoder (ConsoleLog l # es) = usesTranscoder es"
  "usesTranscoder (ConsoleError ms # es) = usesTranscoder es"
  "usesTranscoder (es @ es') = (usesTranscoder es \<or> usesTranscoder es')"
  by (simp_all add: usesTranscoder_def)

lemma usesEncoder_simps:
  "usesEncoder [] = False"
  "usesEncoder (SharpToFile i opts out # es) = True"
  "usesEncoder (FsStat p # es) = usesEncoder es"
  "usesEncoder (FsAccess p # es) = usesEncoder es"
  "usesEncoder (FsMkdir p # es) = usesEncoder es"
  "usesEncoder (FsReaddir p # es) = usesEncoder es"
  "usesEncoder (SharpMetadata p # es) = usesEncoder es"
  "usesEncoder (ExecGif2webp args # es) = usesEncoder es"
  "usesEncoder (ConsoleLog l # es) = usesEncoder es"
  "usesEncoder (ConsoleError ms # es) = usesEncoder es"
  "usesEncoder (es @ es') = (usesEncoder es \<or> usesEncoder es')"
  by (simp_all add: usesEncoder_def)

lemma convertFile_events:
  "fst (convertFile io inputPath outputPath) =
     fst (convertFile_try io inputPath outputPath)
     @ (case snd (convertFile_try io inputPath outputPath) of
          Inl message \<Rightarrow> [ConsoleError [ballotX @ '' Error converting '' @ path_basename inputPath
                               @ '':'', message]]
        | Inr result \<Rightarrow> [])"
  by (simp add: convertFile_def split: prod.splits sum.splits)

lemma routed_animated:
  assumes "toLowerCase (path_extname inputPath) \<in> SUPPORTED_FORMATS"
    and "statInput io = Inr n"
    and "accessOutDir io \<or> mkdirOutDir io = None"
    and "toLowerCase (path_extname inputPath) = ''.gif''" and "probeSaysAnimated io"
  shows "usesTranscoder (fst (convertFile_try io inputPath outputPath))"
    and "\<not> usesEncoder (fst (convertFile_try io inputPath outputPath))"
    and "ExecGif2webp [inputPath, ''-q'', ''75'', ''-m'', ''6'', ''-min_size'', ''-mt'', ''-o'', outputPath]
           \<in> set (fst (convertFile_try io inputPath outputPath))"
  using assms
  by (auto simp: convertFile_try_def await_def fsStat_def ensureDir_def isAnimatedGif_probe
      convertAnimatedGif_def usesTranscoder_simps usesEncoder_simps Let_def
      split: sum.splits option.splits)

lemma routed_static:
  assumes "toLowerCase (path_extname inputPath) \<in> SUPPORTED_FORMATS"
    and "statInput io = Inr n"
    and "accessOutDir io \<or> mkdirOutDir io = None"
    and "\<not> (toLowerCase (path_extname inputPath) = ''.gif'' \<and> probeSaysAnimated io)"
  shows "usesEncoder (fst (convertFile_try io inputPath outputPath))"
    and "\<not> usesTranscoder (fst (convertFile_try io inputPath outputPath))"
    and "SharpToFile inputPath (sharpOptions (toLowerCase (path_extname inputPath))) outputPath
           \<in> set (fst (convertFile_try io inputPath outputPath))"
  using assms
  by (auto simp: convertFile_try_def await_def fsStat_def ensureDir_def isAnimatedGif_probe
      convertWithSharp_def usesTranscoder_simps usesEncoder_simps Let_def
      split: sum.splits option.splits)


text \<open>
  C6. Once \<open>convertFile\<close> has read the size of a supported file and has its output
  directory, it calls the animation transcoder exactly when the lowercased extension is
  \<open>.gif\<close> and the probe fails or reports more than one page, and the static encoder
  exactly otherwise: for a \<open>.gif\<close> with one page (or none reported) and for every other
  supported format. The probe itself never throws.
\<close>

theorem animated_routing:
  assumes "toLowerCase (path_extname inputPath) \<in> SUPPORTED_FORMATS"
    and "statInput io = Inr n"
    and "accessOutDir io \<or> mkdirOutDir io = None"
  shows "(usesTranscoder (fst (convertFile io inputPath outputPath))
            \<longleftrightarrow> toLowerCase (path_extname inputPath) = ''.gif'' \<and> probeSaysAnimated io)
       \<and> (usesEncoder (fst (convertFile io inputPath outputPath))
            \<longleftrightarrow> \<not> (toLowerCase (path_extname inputPath) = ''.gif'' \<and> probeSaysAnimated io))
       \<and> (ExecGif2webp [inputPath, ''-q'', ''75'', ''-m'', ''6'', ''-min_size'', ''-mt'', ''-o'', outputPath]
              \<in> set (fst (convertFile io inputPath outputPath))
            \<longleftrightarrow> toLowerCase (path_extname inputPath) = ''.gif'' \<and> probeSaysAnimated io)
       \<and> (SharpToFile inputPath (sharpOptions (toLowerCase (path_extname inputPath))) outputPath
              \<in> set (fst (convertFile io inputPath outputPath))
            \<longleftrightarrow> \<not> (toLowerCase (path_extname inputPath) = ''.gif'' \<and> probeSaysAnimated io))
       \<and> snd (isAnimatedGif io inputPath) = Inr (probeSaysAnimated io)"
proof (cases "toLowerCase (path_extname inputPath) = ''.gif'' \<and> probeSaysAnimated io")
  case True
  then have g: "toLowerCase (path_extname inputPath) = ''.gif''" and p: "probeSaysAnimated io"
    by simp_all
  note r = routed_animated [OF assms g p, of outputPath]
  have "SharpToFile inputPath (sharpOptions (toLowerCase (path_extname inputPath))) outputPath
          \<notin> set (fst (convertFile_try io inputPath outputPath))"
    using r(2) by (auto simp: usesEncoder_def list_ex_iff)
  with r True show ?thesis
    by (simp add: convertFile_events usesTranscoder_simps usesEncoder_simps isAnimatedGif_probe
        split: sum.splits)
next
  case False
  note r = routed_static [OF assms False, of outputPath]
  have "ExecGif2webp [inputPath, ''-q'', ''75'', ''-m'', ''6'', ''-min_size'', ''-mt'', ''-o'', outputPath]
          \<notin> set (fst (convertFile_try io inputPath outputPath))"
    using r(2) by (auto simp: usesTranscoder_def list_ex_iff)
  with r False show ?thesis
    by (simp add: convertFile_events usesTranscoder_simps usesEncoder_simps isAnimatedGif_probe
        split: sum.splits)
qed

lemma extname_example_gif: "toLowerCase (path_extname ''to-be-converted/clip.GIF'') = ''.gif''"
  by (simp add: path_extname_def path_basename_def stripTrailingSep_def toLowerCase_def
      lowerChar_def)

lemma extname_example_png: "toLowerCase (path_extname ''to-be-converted/a.png'') = ''.png''"
  by (simp add: path_extname_def path_basename_def stripTrailingSep_def toLowerCase_def
      lowerChar_def)

theorem animated_routing_witness:
  "usesTranscoder (fst (convertFile (animatedIo 2) ''to-be-converted/clip.GIF'' ''converted/clip.webp''))
   \<and> \<not> usesEncoder (fst (convertFile (animatedIo 2) ''to-be-converted/clip.GIF'' ''converted/clip.webp''))
   \<and> usesEncoder (fst (convertFile (animatedIo 1) ''to-be-converted/clip.GIF'' ''converted/clip.webp''))
   \<and> \<not> usesTranscoder (fst (convertFile (animatedIo 1) ''to-be-converted/clip.GIF'' ''converted/clip.webp''))
   \<and> usesTranscoder (fst (convertFile unreadableIo ''to-be-converted/clip.GIF'' ''converted/clip.webp''))
   \<and> usesEncoder (fst (convertFile (animatedIo 2) ''to-be-converted/a.png'' ''converted/a.webp''))
   \<and> \<not> usesTranscoder (fst (convertFile (animatedIo 2) ''to-be-converted/a.png'' ''converted/a.webp''))"
proof -
  have g: "toLowerCase (path_extname ''to-be-converted/clip.GIF'') \<in> SUPPORTED_FORMATS"
    by (simp add: extname_example_gif SUPPORTED_FORMATS_def)
  have p: "toLowerCase (path_extname ''to-be-converted/a.png'') \<in> SUPPORTED_FORMATS"
    by (simp add: extname_example_png SUPPORTED_FORMATS_def)
  have s: "statInput (animatedIo k) = Inr 9000" "accessOutDir (animatedIo k) \<or> mkdirOutDir (animatedIo k) = None"
    for k by (simp_all add: animatedIo_def)
  have u: "statInput unreadableIo = Inr 9000" "accessOutDir unreadableIo \<or> mkdirOutDir unreadableIo = None"
    by (simp_all add: unreadableIo_def)
  have a: "probeSaysAnimated (animatedIo 2)" "\<not> probeSaysAnimated (animatedIo 1)"
    "probeSaysAnimated unreadableIo"
    by (simp_all add: probeSaysAnimated_def animatedIo_def unreadableIo_def)
  show ?thesis
    using animated_routing [OF g s(1) s(2), of 2 "''converted/clip.webp''"]
      animated_routing [OF g s(1) s(2), of 1 "''converted/clip.webp''"]
      animated_routing [OF g u, of "''converted/clip.webp''"]
      animated_routing [OF p s(1) s(2), of 2 "''converted/a.webp''"]
      a
    by (simp add: extname_example_gif extname_example_png)
qed

section \<open>A failure stays with its file (C7)\<close>

lemma processEntry_events_independent:
  "fst (processEntry cwd inputDir outputDir entry st) = fst (processEntry cwd inputDir outputDir entry st')"
  by (cases entry) (simp_all add: Let_def split: prod.splits)

lemma processEntries_events_independent:
  "fst (processEntries cwd inputDir outputDir entries st) = fst (processEntries cwd inputDir outputDir entries st')"
proof (induction entries arbitrary: st st')
  case Nil
  show ?case by simp
next
  case (Cons entry entries)
  obtain e1 s1 where a: "processEntry cwd inputDir outputDir entry st = (e1, s1)"
    by (cases "processEntry cwd inputDir outputDir entry st")
  obtain e2 s2 where b: "processEntry cwd inputDir outputDir entry st' = (e2, s2)"
    by (cases "processEntry cwd inputDir outputDir entry st'")
  have "e1 = e2"
    using processEntry_events_independent [of cwd inputDir outputDir entry st st'] by (simp add: a b)
  moreover have "fst (processEntries cwd inputDir outputDir entries s1)
      = fst (processEntries cwd inputDir outputDir entries s2)"
    by (rule Cons.IH)
  ultimately show ?case
    by (auto simp: a b split: prod.splits)
qed

lemma processEntries_append:
  "processEntries cwd inputDir outputDir (xs @ ys) st =
     (case processEntries cwd inputDir outputDir xs st of
        (es, st') \<Rightarrow>
          (case processEntries cwd inputDir outputDir ys st' of
             (es', st'') \<Rightarrow> (es @ es', st'')))"
  by (induction xs arbitrary: st) (simp_all split: prod.splits)

lemma processEntries_append_events:
  "fst (processEntries cwd inputDir outputDir (xs @ ys) st) =
     fst (processEntries cwd inputDir outputDir xs st) @ fst (processEntries cwd inputDir outputDir ys st)"
proof -
  obtain es st' where a: "processEntries cwd inputDir outputDir xs st = (es, st')"
    by (cases "processEntries cwd inputDir outputDir xs st")
  have "fst (processEntries cwd inputDir outputDir ys st') = fst (processEntries cwd inputDir outputDir ys st)"
    by (rule processEntries_events_independent)
  then show ?thesis
    by (auto simp: processEntries_append a split: prod.splits)
qed

lemma attemptsIn_append:
  "attemptsIn cwd inputDir outputDir (xs @ ys)
     = attemptsIn cwd inputDir outputDir xs @ attemptsIn cwd inputDir outputDir ys"
  by (induction xs) simp_all

lemma convertFile_try_throws_iff:
  assumes "toLowerCase (path_extname inputPath) \<in> SUPPORTED_FORMATS"
  shows "(\<exists>message. snd (convertFile_try io inputPath outputPath) = Inl message)
         \<longleftrightarrow> conversionFails io (toLowerCase (path_extname inputPath))"
  using assms
  by (auto simp: convertFile_try_def await_def fsStat_def ensureDir_def isAnimatedGif_probe
      convertAnimatedGif_def convertWithSharp_def conversionFails_def Let_def
      split: sum.splits option.splits if_splits)

lemma convertFile_caught:
  "snd (convertFile_try io inputPath outputPath) = Inl message \<Longrightarrow>
   convertFile io inputPath outputPath =
     (fst (convertFile_try io inputPath outputPath)
      @ [ConsoleError [ballotX @ '' Error converting '' @ path_basename inputPath @ '':'', message]],
      None)"
  by (cases "convertFile_try io inputPath outputPath") (simp add: convertFile_def)

lemma entries_counters:
  "totalFiles (snd (processEntries cwd inputDir outputDir entries st))
     = totalFiles st + length (attemptsIn cwd inputDir outputDir entries)"
  "successfulConversions (snd (processEntries cwd inputDir outputDir entries st))
     = successfulConversions st + length (successes (attemptsIn cwd inputDir outputDir entries))"
  "failedConversions (snd (processEntries cwd inputDir outputDir entries st))
     = failedConversions st
       + length (filter (\<lambda>a. snd a = None) (attemptsIn cwd inputDir outputDir entries))"
  "totalOriginalSize (snd (processEntries cwd inputDir outputDir entries st))
     = totalOriginalSize st
       + sum_list (map originalSize (successes (attemptsIn cwd inputDir outputDir entries)))"
  "totalNewSize (snd (processEntries cwd inputDir outputDir entries st))
     = totalNewSize st
       + sum_list (map newSize (successes (attemptsIn cwd inputDir outputDir entries)))"
proof -
  let ?as = "attemptsIn cwd inputDir outputDir entries"
  let ?s = "snd (processEntries cwd inputDir outputDir entries st)"
  have "totalFiles ?s = totalFiles st + sum_list (map (\<lambda>a. 1) ?as)"
    by (rule additive_walk(2))
       (simp_all add: emptyStats_def mergeStats_def recordConversion_def split: option.splits)
  then show "totalFiles ?s = totalFiles st + length ?as" by (simp add: sum_list_triv)
  have "successfulConversions ?s = successfulConversions st
      + sum_list (map (\<lambda>(ext, result). case result of None \<Rightarrow> 0 | Some r \<Rightarrow> (\<lambda>_. 1) r) ?as)"
    by (rule additive_walk(2))
       (simp_all add: emptyStats_def mergeStats_def recordConversion_def split: option.splits)
  then have "successfulConversions ?s = successfulConversions st
      + sum_list (map (\<lambda>_. 1) (successes ?as))"
    by (simp only: sum_successes)
  then show "successfulConversions ?s = successfulConversions st + length (successes ?as)"
    by (simp add: sum_list_triv)
  have "failedConversions ?s = failedConversions st
      + sum_list (map (\<lambda>a. if snd a = None then 1 else 0) ?as)"
    by (rule additive_walk(2))
       (simp_all add: emptyStats_def mergeStats_def recordConversion_def split: option.splits)
  then show "failedConversions ?s = failedConversions st + length (filter (\<lambda>a. snd a = None) ?as)"
    by (simp only: sum_indicator_length)
  have "totalOriginalSize ?s = totalOriginalSize st
      + sum_list (map (\<lambda>(ext, result). case result of None \<Rightarrow> 0 | Some r \<Rightarrow> originalSize r) ?as)"
    by (rule additive_walk(2))
       (simp_all add: emptyStats_def mergeStats_def recordConversion_def split: option.splits)
  then show "totalOriginalSize ?s = totalOriginalSize st + sum_list (map originalSize (successes ?as))"
    by (simp only: sum_successes)
  have "totalNewSize ?s = totalNewSize st
      + sum_list (map (\<lambda>(ext, result). case result of None \<Rightarrow> 0 | Some r \<Rightarrow> newSize r) ?as)"
    by (rule additive_walk(2))
       (simp_all add: emptyStats_def mergeStats_def recordConversion_def split: option.splits)
  then show "totalNewSize ?s = totalNewSize st + sum_list (map newSize (successes ?as))"
    by (simp only: sum_successes)
qed

lemma successes_append: "successes (xs @ ys) = successes xs @ successes ys"
  by (simp add: successes_def)

lemma successes_failed: "successes ((ext, None) # as) = successes as"
  by (simp add: successes_def)

lemma path_basename_suffix:
  assumes "n \<noteq> []" and "CHR ''/'' \<notin> set n" and "s = [] \<or> last s = CHR ''/''"
  shows "path_basename (s @ n) = n"
proof -
  have ln: "last n \<noteq> CHR ''/''"
    using assms(1,2) last_in_set [of n] by metis
  have hd: "hd (rev n) \<noteq> CHR ''/''" using assms(1) ln by (simp add: hd_rev)
  have rn: "rev n \<noteq> []" using assms(1) by simp
  have "dropWhile (\<lambda>c. c = CHR ''/'') (rev n @ rev s) = rev n @ rev s"
    using rn hd by (cases "rev n") simp_all
  then have strip: "stripTrailingSep (s @ n) = s @ n"
    by (simp add: stripTrailingSep_def)
  have tail: "takeWhile (\<lambda>c. c \<noteq> CHR ''/'') (rev s) = []"
  proof (cases "s = []")
    case True
    then show ?thesis by simp
  next
    case False
    with assms(3) have "last s = CHR ''/''" by simp
    with False have "hd (rev s) = CHR ''/''" by (simp add: hd_rev)
    with False show ?thesis by (cases "rev s") simp_all
  qed
  have "takeWhile (\<lambda>c. c \<noteq> CHR ''/'') (rev n @ rev s)
      = rev n @ takeWhile (\<lambda>c. c \<noteq> CHR ''/'') (rev s)"
    by (rule takeWhile_append2) (use assms(2) in auto)
  then have "takeWhile (\<lambda>c. c \<noteq> CHR ''/'') (rev n @ rev s) = rev n"
    by (simp only: tail append_Nil2)
  then show ?thesis by (simp add: path_basename_def strip)
qed

lemma joinSep_snoc_suffix:
  "\<exists>s. joinSep (res @ [n]) = s @ n \<and> (s = [] \<or> last s = CHR ''/'')"
proof (cases res)
  case Nil
  then show ?thesis by simp
next
  case (Cons r rs)
  then have "joinSep (res @ [n]) = (joinSep res @ ''/'') @ n" by simp
  then show ?thesis by (intro exI [of _ "joinSep res @ ''/''"]) simp
qed

text \<open>The last segment of \<open>path.join(inputDir, name)\<close> is \<open>name\<close>, whatever \<open>inputDir\<close> is.\<close>

lemma path_basename_join:
  assumes "validName name"
  shows "path_basename (path_join inputDir name) = name"
proof -
  have n: "name \<noteq> []" "CHR ''/'' \<notin> set name" using assms by (simp_all add: validName_def)
  have ln: "last name \<noteq> CHR ''/''" using n last_in_set [of name] by metis
  define joined where "joined = (if inputDir = [] then name else inputDir @ ''/'' @ name)"
  have j: "joined \<noteq> []" "last joined \<noteq> CHR ''/''" using n ln by (auto simp: joined_def)
  have pj: "path_join inputDir name = path_normalize joined"
    using n j by (simp add: path_join_def joined_def)
  define dirSegs where "dirSegs = (if inputDir = [] then [] else splitSep inputDir)"
  have split: "splitSep joined = dirSegs @ [name]"
    using n by (simp add: joined_def dirSegs_def splitSep_append_sep splitSep_no_sep)
  have one: "normalizeSegs a res [name] = res @ [name]" for a res
    using assms by (intro normalizeSegs_valid) simp
  have norm: "normalizeSegs a [] (splitSep joined) = normalizeSegs a [] dirSegs @ [name]" for a
    by (simp only: split normalizeSegs_append one)
  have shape: "\<exists>s. normalizeString joined a = s @ name \<and> (s = [] \<or> last s = CHR ''/'')" for a
    using joinSep_snoc_suffix [of "normalizeSegs a [] dirSegs" name]
    unfolding normalizeString_def norm by blast
  show ?thesis
  proof (cases "hd joined = CHR ''/''")
    case True
    obtain s where s: "normalizeString joined False = s @ name" "s = [] \<or> last s = CHR ''/''"
      using shape [of False] by blast
    have "path_normalize joined = (''/'' @ s) @ name"
      using j n True by (simp add: path_normalize_def Let_def s(1))
    moreover have "path_basename ((''/'' @ s) @ name) = name"
      using n s(2) by (intro path_basename_suffix) auto
    ultimately show ?thesis by (simp only: pj)
  next
    case False
    obtain s where s: "normalizeString joined True = s @ name" "s = [] \<or> last s = CHR ''/''"
      using shape [of True] by blast
    have "path_normalize joined = s @ name"
      using j n False by (simp add: path_normalize_def Let_def s(1))
    moreover have "path_basename (s @ name) = name"
      using n s(2) by (intro path_basename_suffix) auto
    ultimately show ?thesis by (simp only: pj)
  qed
qed

lemma path_extname_join:
  assumes "validName name"
  shows "path_extname (path_join inputDir name) = path_extname name"
  by (simp add: path_extname_def path_basename_join [OF assms] path_basename_valid [OF assms])

lemma convertFile_None_iff:
  assumes "toLowerCase (path_extname inputPath) \<in> SUPPORTED_FORMATS"
  shows "snd (convertFile io inputPath outputPath) = None
         \<longleftrightarrow> conversionFails io (toLowerCase (path_extname inputPath))"
  using assms
  by (auto simp: convertFile_def convertFile_try_def await_def fsStat_def ensureDir_def
      isAnimatedGif_probe convertAnimatedGif_def convertWithSharp_def conversionFails_def Let_def
      split: sum.splits option.splits if_splits prod.splits)

text \<open>
  C7. For a file with a supported extension, \<open>convertFile\<close> returns \<open>null\<close> exactly
  when a step of its read, conversion or stat fails (the steps \<open>conversionFails\<close>
  lists), and it returns then: nothing is thrown to the walker. In that case the last
  call of \<open>convertFile\<close> is the \<open>console.error\<close> of the failure; the walker makes, for
  the entries before and after the file, the calls it makes without the failure; and the
  statistics are those of the directory without the file, with one more failed
  conversion and one more file: the successful conversions and both byte totals are the
  same.
\<close>

theorem failure_is_contained:
  assumes "validName name" and "supportedName name"
    and "inputPath = path_join inputDir name"
    and "outputWebP = replaceExtension
           (path_join outputDir (path_relative cwd TO_BE_CONVERTED_DIR inputPath))"
  shows "(snd (convertFile io inputPath outputWebP) = None
            \<longleftrightarrow> conversionFails io (toLowerCase (path_extname name)))
       \<and> (conversionFails io (toLowerCase (path_extname name)) \<longrightarrow>
            (\<exists>message. last (fst (convertFile io inputPath outputWebP))
                = ConsoleError [ballotX @ '' Error converting '' @ name @ '':'', message])
          \<and> fst (processEntries cwd inputDir outputDir (before @ File name io # after) st) =
              fst (processEntries cwd inputDir outputDir before st)
              @ fst (convertFile io inputPath outputWebP)
              @ fst (processEntries cwd inputDir outputDir after st)
          \<and> successfulConversions (snd (processEntries cwd inputDir outputDir (before @ File name io # after) st))
              = successfulConversions (snd (processEntries cwd inputDir outputDir (before @ after) st))
          \<and> totalOriginalSize (snd (processEntries cwd inputDir outputDir (before @ File name io # after) st))
              = totalOriginalSize (snd (processEntries cwd inputDir outputDir (before @ after) st))
          \<and> totalNewSize (snd (processEntries cwd inputDir outputDir (before @ File name io # after) st))
              = totalNewSize (snd (processEntries cwd inputDir outputDir (before @ after) st))
          \<and> failedConversions (snd (processEntries cwd inputDir outputDir (before @ File name io # after) st))
              = failedConversions (snd (processEntries cwd inputDir outputDir (before @ after) st)) + 1
          \<and> totalFiles (snd (processEntries cwd inputDir outputDir (before @ File name io # after) st))
              = totalFiles (snd (processEntries cwd inputDir outputDir (before @ after) st)) + 1)"
proof -
  have sup: "toLowerCase (path_extname name) \<in> SUPPORTED_FORMATS"
    using assms(2) by (simp add: supportedName_def)
  have ext: "path_extname inputPath = path_extname name"
    unfolding assms(3) using assms(1) by (rule path_extname_join)
  have base: "path_basename inputPath = name"
    unfolding assms(3) using assms(1) by (rule path_basename_join)
  have sup': "toLowerCase (path_extname inputPath) \<in> SUPPORTED_FORMATS"
    using sup by (simp only: ext)
  have iff: "snd (convertFile io inputPath outputWebP) = None
            \<longleftrightarrow> conversionFails io (toLowerCase (path_extname name))"
    using convertFile_None_iff [OF sup', of io outputWebP] by (simp only: ext)
  have rest: "(\<exists>message. last (fst (convertFile io inputPath outputWebP))
                = ConsoleError [ballotX @ '' Error converting '' @ name @ '':'', message])
          \<and> fst (processEntries cwd inputDir outputDir (before @ File name io # after) st) =
              fst (processEntries cwd inputDir outputDir before st)
              @ fst (convertFile io inputPath outputWebP)
              @ fst (processEntries cwd inputDir outputDir after st)
          \<and> successfulConversions (snd (processEntries cwd inputDir outputDir (before @ File name io # after) st))
              = successfulConversions (snd (processEntries cwd inputDir outputDir (before @ after) st))
          \<and> totalOriginalSize (snd (processEntries cwd inputDir outputDir (before @ File name io # after) st))
              = totalOriginalSize (snd (processEntries cwd inputDir outputDir (before @ after) st))
          \<and> totalNewSize (snd (processEntries cwd inputDir outputDir (before @ File name io # after) st))
              = totalNewSize (snd (processEntries cwd inputDir outputDir (before @ after) st))
          \<and> failedConversions (snd (processEntries cwd inputDir outputDir (before @ File name io # after) st))
              = failedConversions (snd (processEntries cwd inputDir outputDir (before @ after) st)) + 1
          \<and> totalFiles (snd (processEntries cwd inputDir outputDir (before @ File name io # after) st))
              = totalFiles (snd (processEntries cwd inputDir outputDir (before @ after) st)) + 1"
    if fails: "conversionFails io (toLowerCase (path_extname name))"
  proof -
    have none: "snd (convertFile io inputPath outputWebP) = None"
      using iff fails by simp
    obtain message where thrown: "snd (convertFile_try io inputPath outputWebP) = Inl message"
      using convertFile_try_throws_iff [OF sup', of io outputWebP] fails by (auto simp only: ext)
    have "last (fst (convertFile io inputPath outputWebP))
        = ConsoleError [ballotX @ '' Error converting '' @ name @ '':'', message]"
      by (simp add: convertFile_caught [OF thrown] base)
    then have logged: "\<exists>message. last (fst (convertFile io inputPath outputWebP))
        = ConsoleError [ballotX @ '' Error converting '' @ name @ '':'', message]" ..
    have one: "fst (processEntries cwd inputDir outputDir [File name io] st)
        = fst (convertFile io inputPath outputWebP)"
      using sup by (simp add: assms(3,4) Let_def split: prod.splits)
    have "fst (processEntries cwd inputDir outputDir (before @ [File name io] @ after) st) =
             fst (processEntries cwd inputDir outputDir before st)
             @ fst (processEntries cwd inputDir outputDir [File name io] st)
             @ fst (processEntries cwd inputDir outputDir after st)"
      by (simp only: processEntries_append_events)
    then have events: "fst (processEntries cwd inputDir outputDir (before @ File name io # after) st) =
             fst (processEntries cwd inputDir outputDir before st)
             @ fst (convertFile io inputPath outputWebP)
             @ fst (processEntries cwd inputDir outputDir after st)"
      by (simp only: one append.simps)
    have at: "attemptsIn cwd inputDir outputDir (before @ File name io # after)
        = attemptsIn cwd inputDir outputDir before
          @ [(toLowerCase (path_extname name), None)]
          @ attemptsIn cwd inputDir outputDir after"
      using sup none by (simp add: attemptsIn_append assms(3,4) Let_def)
    have at2: "attemptsIn cwd inputDir outputDir (before @ after)
        = attemptsIn cwd inputDir outputDir before @ attemptsIn cwd inputDir outputDir after"
      by (rule attemptsIn_append)
    have counters:
      "successfulConversions (snd (processEntries cwd inputDir outputDir (before @ File name io # after) st))
         = successfulConversions (snd (processEntries cwd inputDir outputDir (before @ after) st))"
      "totalOriginalSize (snd (processEntries cwd inputDir outputDir (before @ File name io # after) st))
         = totalOriginalSize (snd (processEntries cwd inputDir outputDir (before @ after) st))"
      "totalNewSize (snd (processEntries cwd inputDir outputDir (before @ File name io # after) st))
         = totalNewSize (snd (processEntries cwd inputDir outputDir (before @ after) st))"
      "failedConversions (snd (processEntries cwd inputDir outputDir (before @ File name io # after) st))
         = failedConversions (snd (processEntries cwd inputDir outputDir (before @ after) st)) + 1"
      "totalFiles (snd (processEntries cwd inputDir outputDir (before @ File name io # after) st))
         = totalFiles (snd (processEntries cwd inputDir outputDir (before @ after) st)) + 1"
      by (simp_all add: entries_counters at at2 successes_append successes_failed)
    from logged events counters show ?thesis by blast
  qed
  from iff rest show ?thesis by blast
qed

lemma paths_b_jpg:
  "path_join TO_BE_CONVERTED_DIR ''b.jpg'' = ''to-be-converted/b.jpg''"
  "replaceExtension (path_join CONVERTED_DIR
      (path_relative ''/home/user/project'' TO_BE_CONVERTED_DIR ''to-be-converted/b.jpg''))
   = ''converted/b.webp''"
  by (simp_all add: TO_BE_CONVERTED_DIR_def CONVERTED_DIR_def path_join_def path_relative_def
      resolveSegs_def path_normalize_def normalizeString_def matchesExtension_def)

lemma extname_b_jpg: "toLowerCase (path_extname ''b.jpg'') = ''.jpg''"
  by (simp add: path_extname_def path_basename_def stripTrailingSep_def toLowerCase_def
      lowerChar_def)

lemma supportedName_b_jpg: "supportedName ''b.jpg''"
  by (simp add: supportedName_def extname_b_jpg SUPPORTED_FORMATS_def)

lemma corrupt_fails: "conversionFails corruptIo (toLowerCase (path_extname ''b.jpg''))"
  by (simp add: extname_b_jpg conversionFails_def corruptIo_def)

lemma two_good_files:
  "successfulConversions (snd (processEntries ''/home/user/project'' TO_BE_CONVERTED_DIR CONVERTED_DIR
      ([File ''a.png'' (sampleIo 1000 400)] @ [File ''c.png'' (sampleIo 10 4)]) emptyStats)) = 2"
  "failedConversions (snd (processEntries ''/home/user/project'' TO_BE_CONVERTED_DIR CONVERTED_DIR
      ([File ''a.png'' (sampleIo 1000 400)] @ [File ''c.png'' (sampleIo 10 4)]) emptyStats)) = 0"
  "totalFiles (snd (processEntries ''/home/user/project'' TO_BE_CONVERTED_DIR CONVERTED_DIR
      ([File ''a.png'' (sampleIo 1000 400)] @ [File ''c.png'' (sampleIo 10 4)]) emptyStats)) = 2"
  by (simp_all add: path_extname_def path_basename_def stripTrailingSep_def toLowerCase_def
      lowerChar_def SUPPORTED_FORMATS_def Let_def convertFile_def convertFile_try_def await_def
      fsStat_def ensureDir_def convertWithSharp_def sampleIo_def recordConversion_def
      emptyStats_def TO_BE_CONVERTED_DIR_def path_join_def path_normalize_def normalizeString_def
      split: prod.splits)

theorem failure_is_contained_witness:
  "validName ''b.jpg'' \<and> supportedName ''b.jpg''
   \<and> conversionFails corruptIo (toLowerCase (path_extname ''b.jpg''))
   \<and> snd (convertFile corruptIo ''to-be-converted/b.jpg'' ''converted/b.webp'') = None
   \<and> successfulConversions (snd (processDirectory ''/home/user/project'' TO_BE_CONVERTED_DIR
         CONVERTED_DIR (Entries threeFiles))) = 2
   \<and> failedConversions (snd (processDirectory ''/home/user/project'' TO_BE_CONVERTED_DIR
         CONVERTED_DIR (Entries threeFiles))) = 1
   \<and> totalFiles (snd (processDirectory ''/home/user/project'' TO_BE_CONVERTED_DIR
         CONVERTED_DIR (Entries threeFiles))) = 3"
proof -
  have valid: "validName ''b.jpg''" by (simp add: validName_def)
  note t = failure_is_contained [OF valid supportedName_b_jpg paths_b_jpg(1) [symmetric]
      paths_b_jpg(2) [symmetric],
      of corruptIo "[File ''a.png'' (sampleIo 1000 400)]" "[File ''c.png'' (sampleIo 10 4)]"
        emptyStats]
  have three: "threeFiles = [File ''a.png'' (sampleIo 1000 400)] @ File ''b.jpg'' corruptIo
      # [File ''c.png'' (sampleIo 10 4)]"
    by (simp add: threeFiles_def)
  have root: "snd (processDirectory ''/home/user/project'' TO_BE_CONVERTED_DIR CONVERTED_DIR
        (Entries threeFiles))
      = snd (processEntries ''/home/user/project'' TO_BE_CONVERTED_DIR CONVERTED_DIR
          ([File ''a.png'' (sampleIo 1000 400)] @ File ''b.jpg'' corruptIo
            # [File ''c.png'' (sampleIo 10 4)]) emptyStats)"
    unfolding three by (simp del: processEntries.simps split: prod.splits)
  have none: "snd (convertFile corruptIo ''to-be-converted/b.jpg'' ''converted/b.webp'') = None"
    using t corrupt_fails by simp
  have counts:
    "successfulConversions (snd (processDirectory ''/home/user/project'' TO_BE_CONVERTED_DIR
         CONVERTED_DIR (Entries threeFiles))) = 2"
    "failedConversions (snd (processDirectory ''/home/user/project'' TO_BE_CONVERTED_DIR
         CONVERTED_DIR (Entries threeFiles))) = 1"
    "totalFiles (snd (processDirectory ''/home/user/project'' TO_BE_CONVERTED_DIR
         CONVERTED_DIR (Entries threeFiles))) = 3"
    unfolding root using t corrupt_fails two_good_files by simp_all
  from valid supportedName_b_jpg corrupt_fails none counts show ?thesis by simp
qed

section \<open>Facts about rounding to a double\<close>

lemma bitLength_pos: "0 < n \<Longrightarrow> 0 < bitLength n"
  by (subst bitLength.simps) simp

lemma bitLength_bounds:
  "0 < n \<Longrightarrow> 2 ^ (bitLength n - 1) \<le> n \<and> n < 2 ^ bitLength n"
proof (induction n rule: bitLength.induct)
  case (1 n)
  show ?case
  proof (cases "n = 1")
    case True
    have "bitLength 1 = 1"
      by (subst bitLength.simps, simp, subst bitLength.simps, simp)
    with True show ?thesis by simp
  next
    case False
    with "1.prems" have h: "0 < n div 2" by simp
    have n: "\<not> n \<le> 0" using "1.prems" by simp
    from "1.IH" [OF n h] have ih: "2 ^ (bitLength (n div 2) - 1) \<le> n div 2"
      "n div 2 < 2 ^ bitLength (n div 2)" by simp_all
    have bl: "bitLength n = Suc (bitLength (n div 2))"
      using n by (subst bitLength.simps) simp
    have p: "0 < bitLength (n div 2)" using h by (rule bitLength_pos)
    then obtain k where k: "bitLength (n div 2) = Suc k" by (cases "bitLength (n div 2)") auto
    have "2 * 2 ^ k \<le> 2 * (n div 2)" using ih(1) by (simp add: k)
    also have "\<dots> \<le> n" by simp
    finally have lo: "2 ^ (bitLength n - 1) \<le> n" by (simp add: bl k)
    have "n div 2 + 1 \<le> 2 ^ bitLength (n div 2)" using ih(2) by simp
    then have "2 * (n div 2) + 2 \<le> 2 * 2 ^ bitLength (n div 2)" by simp
    moreover have "n < 2 * (n div 2) + 2" by presburger
    ultimately have hi: "n < 2 ^ bitLength n" by (simp add: bl)
    from lo hi show ?thesis ..
  qed
qed


lemma binaryExponent_bounds:
  assumes "0 < x"
  shows "2 powi binaryExponent x \<le> x" and "x < 2 powi (binaryExponent x + 1)"
proof -
  have "2 powi binaryExponent x \<le> x \<and> x < 2 powi (binaryExponent x + 1)"
  proof (cases "1 \<le> x")
    case True
    then have n: "0 < \<lfloor>x\<rfloor>" by simp
    note b = bitLength_bounds [OF n]
    have p: "0 < bitLength \<lfloor>x\<rfloor>" using n by (rule bitLength_pos)
    have e: "binaryExponent x = int (bitLength \<lfloor>x\<rfloor> - 1)"
      using True p by (simp add: binaryExponent_def of_nat_diff)
    have e1: "binaryExponent x + 1 = int (bitLength \<lfloor>x\<rfloor>)"
      using True p by (simp add: binaryExponent_def)
    have "(2::real) ^ (bitLength \<lfloor>x\<rfloor> - 1) = of_int (2 ^ (bitLength \<lfloor>x\<rfloor> - 1))" by simp
    also have "\<dots> \<le> of_int \<lfloor>x\<rfloor>" using b by (simp only: of_int_le_iff)
    also have "\<dots> \<le> x" by simp
    finally have lo: "2 powi binaryExponent x \<le> x" by (simp only: e power_int_of_nat)
    have "\<lfloor>x\<rfloor> + 1 \<le> 2 ^ bitLength \<lfloor>x\<rfloor>" using b by simp
    then have "(of_int (\<lfloor>x\<rfloor> + 1) :: real) \<le> of_int (2 ^ bitLength \<lfloor>x\<rfloor>)"
      by (simp only: of_int_le_iff)
    then have "real_of_int \<lfloor>x\<rfloor> + 1 \<le> 2 ^ bitLength \<lfloor>x\<rfloor>" by simp
    moreover have "x < real_of_int \<lfloor>x\<rfloor> + 1" by linarith
    ultimately have "x < 2 ^ bitLength \<lfloor>x\<rfloor>" by linarith
    then have hi: "x < 2 powi (binaryExponent x + 1)" by (simp only: e1 power_int_of_nat)
    from lo hi show ?thesis ..
  next
    case False
    with assms have y: "1 < 1 / x" by simp
    let ?c = "\<lceil>1 / x\<rceil>"
    let ?L = "bitLength (?c - 1)"
    from y have c: "0 < ?c - 1" by linarith
    note b = bitLength_bounds [OF c]
    have p: "0 < ?L" using c by (rule bitLength_pos)
    have e: "binaryExponent x = - int ?L" using False by (simp add: binaryExponent_def)
    have "?c \<le> 2 ^ ?L" using b by simp
    then have "(of_int ?c :: real) \<le> of_int (2 ^ ?L)" by (simp only: of_int_le_iff)
    moreover have "(of_int (2 ^ ?L) :: real) = 2 ^ ?L" by simp
    moreover have "1 / x \<le> of_int ?c" by (rule le_of_int_ceiling)
    ultimately have up: "1 / x \<le> 2 ^ ?L" by linarith
    have "1 / 2 ^ ?L \<le> x"
    proof -
      have "1 \<le> x * 2 ^ ?L" using up assms by (simp add: field_simps)
      then show ?thesis by (simp add: field_simps)
    qed
    then have lo: "2 powi binaryExponent x \<le> x"
      by (simp add: e power_int_minus field_simps)
    have "(of_int (2 ^ (?L - 1)) :: real) \<le> of_int (?c - 1)" using b by (simp only: of_int_le_iff)
    moreover have "(of_int (2 ^ (?L - 1)) :: real) = 2 ^ (?L - 1)" by simp
    moreover have "real_of_int (?c - 1) < 1 / x" by linarith
    ultimately have dn: "2 ^ (?L - 1) < 1 / x" by linarith
    have "x < 1 / 2 ^ (?L - 1)"
    proof -
      have "x * 2 ^ (?L - 1) < 1" using dn assms by (simp add: field_simps)
      then show ?thesis by (simp add: field_simps)
    qed
    moreover have "binaryExponent x + 1 = - int (?L - 1)" using p by (simp add: e of_nat_diff)
    ultimately have hi: "x < 2 powi (binaryExponent x + 1)"
      by (simp add: power_int_minus field_simps)
    from lo hi show ?thesis ..
  qed
  then show "2 powi binaryExponent x \<le> x" and "x < 2 powi (binaryExponent x + 1)" by simp_all
qed

lemma binaryExponent_unique:
  assumes "0 < x" and "2 powi e \<le> x" and "x < 2 powi (e + 1)"
  shows "binaryExponent x = e"
proof (rule ccontr)
  assume ne: "binaryExponent x \<noteq> e"
  note b = binaryExponent_bounds [OF assms(1)]
  show False
  proof (cases "binaryExponent x < e")
    case True
    then have "binaryExponent x + 1 \<le> e" by simp
    then have "(2::real) powi (binaryExponent x + 1) \<le> 2 powi e"
      by (intro power_int_increasing) simp_all
    with b(2) assms(2) show False by linarith
  next
    case False
    with ne have "e + 1 \<le> binaryExponent x" by simp
    then have "(2::real) powi (e + 1) \<le> 2 powi binaryExponent x"
      by (intro power_int_increasing) simp_all
    with b(1) assms(3) show False by linarith
  qed
qed

lemma roundHalfEven_error: "\<bar>of_int (roundHalfEven m) - m\<bar> \<le> 1 / 2"
proof -
  have "of_int \<lfloor>m\<rfloor> \<le> m" "m < of_int \<lfloor>m\<rfloor> + 1" by linarith+
  then show ?thesis
    by (auto simp: roundHalfEven_def Let_def)
qed

lemma roundHalfEven_of_int: "roundHalfEven (of_int k) = k"
  by (simp add: roundHalfEven_def)

lemma roundDouble_eval:
  assumes "x \<noteq> 0" and "2 powi e \<le> \<bar>x\<bar>" and "\<bar>x\<bar> < 2 powi (e + 1)"
  shows "roundDouble x = sgn x * of_int (roundHalfEven (\<bar>x\<bar> / 2 powi (e - 52))) * 2 powi (e - 52)"
proof -
  have "binaryExponent \<bar>x\<bar> = e"
    using assms by (intro binaryExponent_unique) simp_all
  with assms(1) show ?thesis by (simp add: roundDouble_def Let_def)
qed

lemma roundDouble_relative:
  "\<exists>d. \<bar>d\<bar> \<le> 1 / 2 ^ 53 \<and> roundDouble x = x * (1 + d)"
proof (cases "x = 0")
  case True
  then show ?thesis by (intro exI [of _ 0]) (simp add: roundDouble_def)
next
  case False
  let ?e = "binaryExponent \<bar>x\<bar>"
  let ?u = "(2::real) powi (?e - 52)"
  let ?R = "of_int (roundHalfEven (\<bar>x\<bar> / ?u)) :: real"
  have ax: "0 < \<bar>x\<bar>" using False by simp
  have u: "0 < ?u" by simp
  have lo: "2 powi ?e \<le> \<bar>x\<bar>" using ax by (rule binaryExponent_bounds)
  have ue: "?u * 2 ^ 52 = 2 powi ?e"
    by (simp add: power_int_diff)
  have rd: "roundDouble x = sgn x * ?R * ?u"
    using False by (simp add: roundDouble_def Let_def)
  have "\<bar>?R - \<bar>x\<bar> / ?u\<bar> \<le> 1 / 2" by (rule roundHalfEven_error)
  then have "\<bar>?R - \<bar>x\<bar> / ?u\<bar> * ?u \<le> 1 / 2 * ?u"
    using u by (intro mult_right_mono) simp_all
  moreover have "\<bar>?R - \<bar>x\<bar> / ?u\<bar> * ?u = \<bar>?R * ?u - \<bar>x\<bar>\<bar>"
  proof -
    have "\<bar>?R - \<bar>x\<bar> / ?u\<bar> * ?u = \<bar>(?R - \<bar>x\<bar> / ?u) * ?u\<bar>"
      using u by (simp add: abs_mult)
    also have "(?R - \<bar>x\<bar> / ?u) * ?u = ?R * ?u - \<bar>x\<bar>"
      using u by (simp add: field_simps)
    finally show ?thesis .
  qed
  ultimately have err: "\<bar>?R * ?u - \<bar>x\<bar>\<bar> \<le> ?u / 2" by simp
  define d where "d = (roundDouble x - x) / x"
  have eq: "roundDouble x = x * (1 + d)"
    using False by (simp add: d_def field_simps)
  have "roundDouble x - x = sgn x * (?R * ?u - \<bar>x\<bar>)"
    by (simp add: rd algebra_simps flip: abs_sgn) (simp add: sgn_real_def)
  then have "\<bar>roundDouble x - x\<bar> = \<bar>?R * ?u - \<bar>x\<bar>\<bar>"
    using False by (simp add: abs_mult sgn_real_def)
  then have "\<bar>d\<bar> = \<bar>?R * ?u - \<bar>x\<bar>\<bar> / \<bar>x\<bar>"
    by (simp add: d_def abs_divide)
  also have "\<dots> \<le> (?u / 2) / \<bar>x\<bar>"
    using err ax by (intro divide_right_mono) simp_all
  also have "\<dots> \<le> (?u / 2) / (2 powi ?e)"
  proof -
    have "0 < \<bar>x\<bar> * 2 powi ?e" using ax by (intro mult_pos_pos) simp_all
    with lo u show ?thesis by (intro divide_left_mono) simp_all
  qed
  also have "\<dots> = 1 / 2 ^ 53"
    using ue [symmetric] u by (simp add: field_simps)
  finally have "\<bar>d\<bar> \<le> 1 / 2 ^ 53" .
  with eq show ?thesis by blast
qed

lemma roundDouble_zero: "roundDouble 0 = 0"
  by (simp add: roundDouble_def)

lemma roundDouble_sign:
  "roundDouble x = 0 \<longleftrightarrow> x = 0"
  "0 < roundDouble x \<longleftrightarrow> 0 < x"
proof -
  obtain d where d: "\<bar>d\<bar> \<le> 1 / 2 ^ 53" and r: "roundDouble x = x * (1 + d)"
    using roundDouble_relative [of x] by blast
  have "(1 :: real) / 2 ^ 53 < 1" by simp
  with d have p: "0 < 1 + d" by linarith
  from p show "roundDouble x = 0 \<longleftrightarrow> x = 0" by (simp add: r)
  from p show "0 < roundDouble x \<longleftrightarrow> 0 < x" by (simp add: r zero_less_mult_iff)
qed

section \<open>The reported reduction (C4)\<close>

lemma showNat_digit: "n < 10 \<Longrightarrow> showNat n = [digitChar n]"
  by (simp add: showNat.simps)

lemma showNat_more: "10 \<le> n \<Longrightarrow> showNat n = showNat (n div 10) @ [digitChar (n mod 10)]"
  by (subst showNat.simps) simp

lemma percentReduction_positive:
  assumes "0 < original"
  shows "\<exists>d1 d2 d3. \<bar>d1\<bar> \<le> 1 / 2 ^ 53 \<and> \<bar>d2\<bar> \<le> 1 / 2 ^ 53 \<and> \<bar>d3\<bar> \<le> 1 / 2 ^ 53
     \<and> percentReduction original new =
         Num ((real original - real new) * (1 + d1) / real original * (1 + d2) * 100 * (1 + d3))"
proof -
  let ?a = "roundDouble (real original - real new)"
  let ?q = "roundDouble (?a / real original)"
  obtain d1 where d1: "\<bar>d1\<bar> \<le> 1 / 2 ^ 53" and a: "?a = (real original - real new) * (1 + d1)"
    using roundDouble_relative [of "real original - real new"] by blast
  obtain d2 where d2: "\<bar>d2\<bar> \<le> 1 / 2 ^ 53" and q: "?q = ?a / real original * (1 + d2)"
    using roundDouble_relative [of "?a / real original"] by blast
  obtain d3 where d3: "\<bar>d3\<bar> \<le> 1 / 2 ^ 53" and p: "roundDouble (?q * 100) = ?q * 100 * (1 + d3)"
    using roundDouble_relative [of "?q * 100"] by blast
  have "percentReduction original new = Num (roundDouble (?q * 100))"
    using assms by (simp add: percentReduction_def)
  also have "roundDouble (?q * 100) = ?a / real original * (1 + d2) * 100 * (1 + d3)"
    using p by (simp only: q [symmetric])
  also have "\<dots> = (real original - real new) * (1 + d1) / real original * (1 + d2) * 100
      * (1 + d3)"
    by (simp only: a [symmetric])
  finally show ?thesis using d1 d2 d3 by blast
qed

lemma percentReduction_zero:
  "percentReduction 0 new = (if new = 0 then NaN else NegInfinity)"
proof (cases "new = 0")
  case True
  then show ?thesis by (simp add: percentReduction_def roundDouble_zero)
next
  case False
  have "0 < roundDouble (- real new) \<longleftrightarrow> 0 < - real new"
    by (rule roundDouble_sign(2))
  then have neg: "\<not> 0 < roundDouble (- real new)" by simp
  have "roundDouble (- real new) = 0 \<longleftrightarrow> - real new = 0"
    by (rule roundDouble_sign(1))
  with False have nz: "roundDouble (- real new) \<noteq> 0" by simp
  from False neg nz show ?thesis by (simp add: percentReduction_def)
qed

text \<open>The three roundings of \<open>((1000 - 400) / 1000) * 100\<close> and of \<open>((320 - 126) / 320) * 100\<close>.\<close>

lemma round_600: "roundDouble 600 = 600"
  using roundDouble_eval [of 600 9] by (simp add: roundHalfEven_def)

lemma round_three_fifths: "roundDouble (3 / 5) = 5404319552844595 / 9007199254740992"
  using roundDouble_eval [of "3 / 5" "-1"] by (simp add: roundHalfEven_def)

lemma round_sixty: "roundDouble (5404319552844595 / 9007199254740992 * 100) = 60"
  using roundDouble_eval [of "5404319552844595 / 9007199254740992 * 100" 5]
  by (simp add: roundHalfEven_def)

lemma percentReduction_sixty: "percentReduction 1000 400 = Num 60"
proof -
  have "percentReduction 1000 400
      = js_mul (js_div (Num (roundDouble 600)) (Num 1000)) (Num 100)"
    by (simp add: percentReduction_def)
  also have "\<dots> = js_mul (Num (roundDouble (3 / 5))) (Num 100)"
    by (simp add: round_600)
  also have "\<dots> = Num (roundDouble (5404319552844595 / 9007199254740992 * 100))"
    by (simp only: round_three_fifths js_mul.simps)
  finally show ?thesis by (simp only: round_sixty)
qed

lemma toFixed2_sixty: "toFixed2 (percentReduction 1000 400) = ''60.00''"
  by (simp add: percentReduction_sixty toFixed2_def showNat_digit showNat_more digitChar_def)

lemma round_194: "roundDouble 194 = 194"
  using roundDouble_eval [of 194 7] by (simp add: roundHalfEven_def)

lemma round_97_160: "roundDouble (97 / 160) = 2730307274093363 / 4503599627370496"
  using roundDouble_eval [of "97 / 160" "-1"] by (simp add: roundHalfEven_def)

lemma round_60_62: "roundDouble (2730307274093363 / 4503599627370496 * 100)
    = 8532210231541759 / 140737488355328"
  using roundDouble_eval [of "2730307274093363 / 4503599627370496 * 100" 5]
  by (simp add: roundHalfEven_def)

lemma percentReduction_320_126: "percentReduction 320 126 = Num (8532210231541759 / 140737488355328)"
proof -
  have "percentReduction 320 126
      = js_mul (js_div (Num (roundDouble 194)) (Num 320)) (Num 100)"
    by (simp add: percentReduction_def)
  also have "\<dots> = js_mul (Num (roundDouble (97 / 160))) (Num 100)"
    by (simp add: round_194)
  also have "\<dots> = Num (roundDouble (2730307274093363 / 4503599627370496 * 100))"
    by (simp only: round_97_160 js_mul.simps)
  finally show ?thesis by (simp only: round_60_62)
qed

lemma toFixed2_320_126: "toFixed2 (percentReduction 320 126) = ''60.62''"
  by (simp add: percentReduction_320_126 toFixed2_def showNat_digit showNat_more digitChar_def)

lemma convertFile_reports_reduction:
  assumes "snd (convertFile io inputPath outputPath) = Some r"
  shows "ConsoleLog (''  Reduced by: '' @ toFixed2 (percentReduction (originalSize r) (newSize r))
                     @ ''%'' @ newline)
           \<in> set (fst (convertFile io inputPath outputPath))"
  using assms
  by (auto simp: convertFile_def convertFile_try_def await_def fsStat_def ensureDir_def
      isAnimatedGif_def convertAnimatedGif_def convertWithSharp_def Let_def
      split: prod.splits sum.splits option.splits if_splits)

lemma summary_reports_reduction:
  "ConsoleLog (''Overall reduction: ''
               @ toFixed2 (percentReduction (totalOriginalSize st) (totalNewSize st)) @ ''%'')
     \<in> set (summary st)"
  by (simp add: summary_def)

text \<open>
  C4, as the code has it. The reduction that \<open>convertFile\<close> and the summary report is
  \<open>((original - new) / original) * 100\<close> computed in double precision and printed with
  two decimals. When the original size is positive its value is the exact quotient but
  for the three roundings, each of a relative size of \<open>2^-53\<close> at most: 1000 and 400
  give \<open>60.00\<close>, and 320 and 126, whose exact reduction is 60.625, give \<open>60.62\<close>. When
  the original size is 0 the division raises nothing and the reduction is \<open>NaN\<close> (new
  size 0) or \<open>-Infinity\<close> (new size positive), printed as such: there is no guard that
  would report 0.
\<close>

theorem percent_reduction_reported:
  "(0 < original \<longrightarrow>
      (\<exists>d1 d2 d3. \<bar>d1\<bar> \<le> 1 / 2 ^ 53 \<and> \<bar>d2\<bar> \<le> 1 / 2 ^ 53 \<and> \<bar>d3\<bar> \<le> 1 / 2 ^ 53
         \<and> percentReduction original new =
             Num ((real original - real new) * (1 + d1) / real original * (1 + d2) * 100
                  * (1 + d3))))
   \<and> percentReduction 0 new = (if new = 0 then NaN else NegInfinity)
   \<and> toFixed2 (percentReduction 1000 400) = ''60.00''
   \<and> toFixed2 (percentReduction 320 126) = ''60.62''
   \<and> toFixed2 NaN = ''NaN''
   \<and> toFixed2 NegInfinity = ''-Infinity''
   \<and> (snd (convertFile io inputPath outputPath) = Some r \<longrightarrow>
        ConsoleLog (''  Reduced by: '' @ toFixed2 (percentReduction (originalSize r) (newSize r))
                    @ ''%'' @ newline)
          \<in> set (fst (convertFile io inputPath outputPath)))
   \<and> ConsoleLog (''Overall reduction: ''
                  @ toFixed2 (percentReduction (totalOriginalSize st) (totalNewSize st)) @ ''%'')
        \<in> set (summary st)"
proof -
  have a: "0 < original \<longrightarrow>
      (\<exists>d1 d2 d3. \<bar>d1\<bar> \<le> 1 / 2 ^ 53 \<and> \<bar>d2\<bar> \<le> 1 / 2 ^ 53 \<and> \<bar>d3\<bar> \<le> 1 / 2 ^ 53
         \<and> percentReduction original new =
             Num ((real original - real new) * (1 + d1) / real original * (1 + d2) * 100
                  * (1 + d3)))"
    using percentReduction_positive [of original new] by blast
  have b: "toFixed2 NaN = ''NaN''" "toFixed2 NegInfinity = ''-Infinity''"
    by (simp_all add: toFixed2_def)
  have c: "snd (convertFile io inputPath outputPath) = Some r \<longrightarrow>
        ConsoleLog (''  Reduced by: '' @ toFixed2 (percentReduction (originalSize r) (newSize r))
                    @ ''%'' @ newline)
          \<in> set (fst (convertFile io inputPath outputPath))"
    using convertFile_reports_reduction [of io inputPath outputPath r] by blast
  from a percentReduction_zero [of new] toFixed2_sixty toFixed2_320_126 b c
    summary_reports_reduction [of st]
  show ?thesis by blast
qed

lemma extname_a_png: "toLowerCase (path_extname ''to-be-converted/a.png'') = ''.png''"
  by (simp add: path_extname_def path_basename_def stripTrailingSep_def toLowerCase_def
      lowerChar_def)

lemma empty_file_converted:
  "snd (convertFile (sampleIo 0 7) ''to-be-converted/a.png'' ''converted/a.webp'')
     = Some \<lparr>success = True, originalSize = 0, newSize = 7\<rparr>"
  by (simp add: convertFile_def convertFile_try_def extname_a_png SUPPORTED_FORMATS_def await_def
      fsStat_def ensureDir_def convertWithSharp_def sampleIo_def Let_def)

theorem percent_reduction_reported_witness:
  "0 < (1000 :: nat)
   \<and> (\<exists>d1 d2 d3. \<bar>d1\<bar> \<le> 1 / 2 ^ 53 \<and> \<bar>d2\<bar> \<le> 1 / 2 ^ 53 \<and> \<bar>d3\<bar> \<le> 1 / 2 ^ 53
        \<and> percentReduction 1000 400 =
            Num ((real 1000 - real 400) * (1 + d1) / real 1000 * (1 + d2) * 100 * (1 + d3)))
   \<and> snd (convertFile (sampleIo 0 7) ''to-be-converted/a.png'' ''converted/a.webp'')
       = Some \<lparr>success = True, originalSize = 0, newSize = 7\<rparr>
   \<and> ConsoleLog (''  Reduced by: -Infinity%'' @ newline)
       \<in> set (fst (convertFile (sampleIo 0 7) ''to-be-converted/a.png'' ''converted/a.webp''))"
proof -
  note t = percent_reduction_reported [of 1000 400 "sampleIo 0 7" "''to-be-converted/a.png''"
      "''converted/a.webp''" "\<lparr>success = True, originalSize = 0, newSize = 7\<rparr>" emptyStats]
  have p: "0 < (1000 :: nat)" by simp
  have a: "\<exists>d1 d2 d3. \<bar>d1\<bar> \<le> 1 / 2 ^ 53 \<and> \<bar>d2\<bar> \<le> 1 / 2 ^ 53 \<and> \<bar>d3\<bar> \<le> 1 / 2 ^ 53
        \<and> percentReduction 1000 400 =
            Num ((real 1000 - real 400) * (1 + d1) / real 1000 * (1 + d2) * 100 * (1 + d3))"
    using t p by blast
  have "snd (convertFile (sampleIo 0 7) ''to-be-converted/a.png'' ''converted/a.webp'')
      = Some \<lparr>success = True, originalSize = 0, newSize = 7\<rparr> \<longrightarrow>
      ConsoleLog (''  Reduced by: '' @ toFixed2 (percentReduction
          (originalSize \<lparr>success = True, originalSize = 0, newSize = 7\<rparr>)
          (newSize \<lparr>success = True, originalSize = 0, newSize = 7\<rparr>)) @ ''%'' @ newline)
        \<in> set (fst (convertFile (sampleIo 0 7) ''to-be-converted/a.png'' ''converted/a.webp''))"
    using t by blast
  then have b: "ConsoleLog (''  Reduced by: -Infinity%'' @ newline)
       \<in> set (fst (convertFile (sampleIo 0 7) ''to-be-converted/a.png'' ''converted/a.webp''))"
    using empty_file_converted by (simp add: percentReduction_zero toFixed2_def)
  from p a b empty_file_converted show ?thesis by blast
qed

lemma main_emptyWorld:
  "ConsoleLog ''Overall reduction: NaN%'' \<in> set (main emptyWorld)"
  by (simp add: main_def main_try_def emptyWorld_def await_def ensureDir_def emptyStats_def
      summary_def percentReduction_def roundDouble_zero toFixed2_def)

text \<open>
  C4 as stated asks for a reduction reported as 0% when the original size is 0. The
  summary of a run over an empty pending directory, where both byte totals are 0, reports
  \<open>NaN%\<close>.
\<close>

theorem zero_original_size_counterexample:
  "toFixed2 (percentReduction 0 0) = ''NaN''
   \<and> toFixed2 (percentReduction 0 0) \<noteq> ''0.00''
   \<and> ConsoleLog ''Overall reduction: NaN%'' \<in> set (main emptyWorld)"
  using main_emptyWorld by (simp add: percentReduction_def roundDouble_zero toFixed2_def)

section \<open>Unsupported files (C5)\<close>

lemma unsupported_file_skipped:
  "\<not> supportedName name \<Longrightarrow> processEntry cwd inputDir outputDir (File name io) st = ([], st)"
  by (simp add: supportedName_def Let_def)

lemma extname_notes_txt:
  "toLowerCase (path_extname ''notes.txt'') = ''.txt''"
  "toLowerCase (path_extname ''to-be-converted/notes.txt'') = ''.txt''"
  "path_basename ''to-be-converted/notes.txt'' = ''notes.txt''"
  by (simp_all add: path_extname_def path_basename_def stripTrailingSep_def toLowerCase_def
      lowerChar_def)

text \<open>
  C5. A file whose extension is not supported is skipped by the walker and logged; it is
  not counted and no output is produced for it. On a pending directory that holds only
  \<open>notes.txt\<close> the walker calls nothing but \<open>readdir\<close> and returns the empty
  statistics: the file is skipped and not counted, and no line is logged for it. The line
  exists in \<open>convertFile\<close>, which the walker never calls for such a file.
\<close>

theorem unsupported_file_not_logged:
  "processDirectory ''/home/user/project'' TO_BE_CONVERTED_DIR CONVERTED_DIR
     (Entries [File ''notes.txt'' (sampleIo 12 12)])
     = ([FsReaddir ''to-be-converted''], emptyStats)
   \<and> convertFile (sampleIo 12 12) ''to-be-converted/notes.txt'' ''converted/notes.txt''
     = ([ConsoleLog ''Skipping unsupported file: notes.txt''], None)"
  by (simp add: extname_notes_txt SUPPORTED_FORMATS_def Let_def convertFile_def
      convertFile_try_def TO_BE_CONVERTED_DIR_def)

end
